theory Spec2Isabelle
  imports Main
begin

section \<open>Data model\<close>

text \<open>
  The controller of \<^verbatim>\<open>controller.go\<close> reads pods, containers and container statuses of
  the Kubernetes API. Only the fields the controller reads are kept; every struct is a
  record, every nullable pointer an option.
\<close>

text \<open>An instant (\<^verbatim>\<open>time.Time\<close>) is a count of nanoseconds; \<^verbatim>\<open>Before\<close> is \<open><\<close>.\<close>

type_synonym time = int

record ContainerStateRunning =
  StartedAt :: time

text \<open>
  \<^verbatim>\<open>v1.ContainerState\<close>: three nullable pointers. The controller only tests the waiting and
  terminated details against nil, so their contents are left out.
\<close>

record ContainerState =
  Waiting :: "unit option"
  Running :: "ContainerStateRunning option"
  Terminated :: "unit option"

record ContainerStatus =
  status_Name :: string
  State :: ContainerState

record Container =
  container_Name :: string
  Image :: string

record PodSpec =
  InitContainers :: "Container list"
  Containers :: "Container list"

text \<open>\<^verbatim>\<open>v1.PodPhase\<close> is a string type.\<close>

record PodStatus =
  Phase :: string
  InitContainerStatuses :: "ContainerStatus list"
  ContainerStatuses :: "ContainerStatus list"

record Pod =
  Namespace :: string
  pod_Name :: string
  Spec :: PodSpec
  Status :: PodStatus

definition PodPending :: string where
  "PodPending = ''Pending''"

definition PodRunning :: string where
  "PodRunning = ''Running''"

text \<open>
  A \<^verbatim>\<open>Matcher\<close> is an opaque predicate; the controller calls \<^verbatim>\<open>Match\<close> on a pod and on a
  container. It is a parameter of the model.
\<close>

datatype object = PodObject Pod | ContainerObject Container

type_synonym Matcher = "object \<Rightarrow> bool"

record ControllerOptions =
  Namespaces :: "string list"
  InclusionMatcher :: Matcher
  ExclusionMatcher :: Matcher
  SinceStart :: bool
  Since :: "time option"
  ContainerName :: string

text \<open>
  A tailer is built by \<^verbatim>\<open>NewContainerTailer\<close> from copies of the pod and the container and
  from the start timestamp (nil: stream everything).
\<close>

record ContainerTailer =
  tailer_Pod :: Pod
  tailer_Container :: Container
  FromTimestamp :: "time option"

text \<open>
  What \<^verbatim>\<open>podListWatcher.List\<close> returns: an error, or an object that is a pod list, a
  list of runtime objects (of which some are pods), or something else.
\<close>

datatype RuntimeObject = PodItem Pod | OtherItem

datatype ListObject =
    PodList "Pod list"
  | InternalList "RuntimeObject list"
  | OtherObject

text \<open>
  Everything the controller does to the outside is recorded, in order, in a trace:
  the listing of a namespace (with its answer), the start of its informer, the callbacks \<^verbatim>\<open>OnEnter\<close>
  (with its arguments and its answer), \<^verbatim>\<open>OnExit\<close> and \<^verbatim>\<open>OnNothingDiscovered\<close>, the launch
  of a tailer (with the key it is registered under) and the stop of a tailer.
\<close>

datatype event =
    ListCall string "string + ListObject"
  | InformerRun string
  | Enter Pod Container bool bool
  | TailerRun string ContainerTailer
  | TailerStop string ContainerTailer
  | Exit Pod Container
  | NothingDiscovered

text \<open>
  \<^verbatim>\<open>OnEnter\<close> is the embedder's code and may keep state of its own: its answer is a function
  of its arguments and of the trace so far. The other callbacks return nothing and only
  leave their event.
\<close>

record Callbacks =
  OnEnter :: "event list \<Rightarrow> Pod \<Rightarrow> Container \<Rightarrow> bool \<Rightarrow> bool"

text \<open>
  The controller: its options, the client (here: the answer of the listing call for a
  namespace, given the trace so far), the registry of tailers by key, the callbacks; and,
  beside the fields of the struct, the wall clock read by \<^verbatim>\<open>time.Now\<close> and the trace. The
  mutex makes \<^verbatim>\<open>addContainer\<close> and \<^verbatim>\<open>deleteContainer\<close> atomic: each is one step on this state.
\<close>

record Controller =
  options :: ControllerOptions
  client :: "event list \<Rightarrow> string \<Rightarrow> string + ListObject"
  tailers :: "string \<rightharpoonup> ContainerTailer"
  callbacks :: Callbacks
  now :: "event list \<Rightarrow> time"
  trace :: "event list"

definition NewController ::
  "(event list \<Rightarrow> string \<Rightarrow> string + ListObject) \<Rightarrow> ControllerOptions \<Rightarrow> Callbacks
    \<Rightarrow> (event list \<Rightarrow> time) \<Rightarrow> Controller" where
  "NewController cl opts cbs clock =
     \<lparr>options = opts, client = cl, tailers = Map.empty, callbacks = cbs,
      now = clock, trace = []\<rparr>"

section \<open>Status entries and keys\<close>

text \<open>The zero value of \<^verbatim>\<open>v1.ContainerStatus\<close>: empty name, no state.\<close>

definition zeroContainerStatus :: ContainerStatus where
  "zeroContainerStatus =
     \<lparr>status_Name = [], State = \<lparr>Waiting = None, Running = None, Terminated = None\<rparr>\<rparr>"

text \<open>
  \<^verbatim>\<open>make([]v1.ContainerStatus, n)\<close> with one size argument makes a slice of length \<open>n\<close>,
  filled with zero values; the two \<^verbatim>\<open>append\<close>s add the statuses after them.
\<close>

definition allContainerStatusesForPod :: "Pod \<Rightarrow> ContainerStatus list" where
  "allContainerStatusesForPod pod =
     (let statuses = replicate (length (ContainerStatuses (Status pod))
                                + length (InitContainerStatuses (Status pod)))
                               zeroContainerStatus
      in (statuses @ InitContainerStatuses (Status pod)) @ ContainerStatuses (Status pod))"

text \<open>\<^verbatim>\<open>fmt.Sprintf("%s/%s/%s", pod.Namespace, pod.Name, container.Name)\<close>\<close>

definition buildKey :: "Pod \<Rightarrow> Container \<Rightarrow> string" where
  "buildKey pod container =
     Namespace pod @ ''/'' @ pod_Name pod @ ''/'' @ container_Name container"

section \<open>Inclusion policy\<close>

text \<open>The loop of \<^verbatim>\<open>shouldIncludeContainer\<close> that sets the flag \<^verbatim>\<open>running\<close>.\<close>

fun statusPresent :: "ContainerStatus list \<Rightarrow> Container \<Rightarrow> bool" where
  "statusPresent [] container = False"
| "statusPresent (s # ss) container =
     (if status_Name s = container_Name container
         \<and> (Waiting (State s) \<noteq> None \<or> Terminated (State s) \<noteq> None
            \<or> Running (State s) \<noteq> None)
      then True
      else statusPresent ss container)"

definition shouldIncludeContainer :: "Controller \<Rightarrow> Pod \<Rightarrow> Container \<Rightarrow> bool" where
  "shouldIncludeContainer ctl pod container =
     (if \<not> (Phase (Status pod) = PodRunning \<or> Phase (Status pod) = PodPending) then False
      else if \<not> statusPresent (allContainerStatusesForPod pod) container then False
      else if ContainerName (options ctl) \<noteq> []
              \<and> ContainerName (options ctl) \<noteq> container_Name container then False
      else if ExclusionMatcher (options ctl) (PodObject pod) then False
      else if \<not> (InclusionMatcher (options ctl) (PodObject pod)
                 \<or> InclusionMatcher (options ctl) (ContainerObject container)) then False
      else \<not> ExclusionMatcher (options ctl) (ContainerObject container))"

section \<open>Start timestamp\<close>

text \<open>The loop of the default case of \<^verbatim>\<open>getStartTimestamp\<close>; \<open>t\<close> is the pointer \<^verbatim>\<open>t\<close>.\<close>

fun earliestRunning :: "ContainerStatus list \<Rightarrow> Container \<Rightarrow> time option \<Rightarrow> time option" where
  "earliestRunning [] container t = t"
| "earliestRunning (status # rest) container t =
     (if status_Name status = container_Name container
      then (case Running (State status) of
              None \<Rightarrow> earliestRunning rest container t
            | Some running \<Rightarrow>
                (case t of
                   None \<Rightarrow> earliestRunning rest container (Some (StartedAt running))
                 | Some t0 \<Rightarrow>
                     if StartedAt running < t0
                     then earliestRunning rest container (Some (StartedAt running))
                     else earliestRunning rest container t))
      else earliestRunning rest container t)"

text \<open>\<^verbatim>\<open>time.Second\<close> in nanoseconds.\<close>

definition Second :: int where
  "Second = 1000000000"

text \<open>The result is the pair the Go function returns: the pointer and the flag.\<close>

definition getStartTimestamp :: "Controller \<Rightarrow> Pod \<Rightarrow> Container \<Rightarrow> bool \<Rightarrow> time option \<times> bool" where
  "getStartTimestamp ctl pod container initialAdd =
     (if SinceStart (options ctl) then (None, True)
      else if Since (options ctl) \<noteq> None then (Since (options ctl), True)
      else if initialAdd then (Some (now ctl (trace ctl) + Second * (- 5)), True)
      else (case earliestRunning (allContainerStatusesForPod pod) container None of
              None \<Rightarrow> (None, False)
            | Some t \<Rightarrow> (Some t, True)))"

section \<open>Session lifecycle\<close>

definition addContainer :: "Controller \<Rightarrow> Pod \<Rightarrow> Container \<Rightarrow> bool \<Rightarrow> Controller" where
  "addContainer ctl pod container initialAdd =
     (let key = buildKey pod container in
      if tailers ctl key \<noteq> None then ctl
      else
        let entered = OnEnter (callbacks ctl) (trace ctl) pod container initialAdd;
            ctl1 = ctl\<lparr>trace := trace ctl @ [Enter pod container initialAdd entered]\<rparr>
        in if \<not> entered then ctl1
           else
             (case getStartTimestamp ctl1 pod container initialAdd of
                (fromTimestamp, ok) \<Rightarrow>
                  if \<not> ok then ctl1
                  else
                    let tailer = \<lparr>tailer_Pod = pod, tailer_Container = container,
                                  FromTimestamp = fromTimestamp\<rparr>
                    in ctl1\<lparr>tailers := (tailers ctl1)(key \<mapsto> tailer),
                            trace := trace ctl1 @ [TailerRun key tailer]\<rparr>))"

definition deleteContainer :: "Controller \<Rightarrow> Pod \<Rightarrow> Container \<Rightarrow> Controller" where
  "deleteContainer ctl pod container =
     (let key = buildKey pod container in
      case tailers ctl key of
        Some tailer \<Rightarrow>
          ctl\<lparr>tailers := (tailers ctl)(key := None),
              trace := trace ctl @ [TailerStop key tailer, Exit pod container]\<rparr>
      | None \<Rightarrow> ctl)"

section \<open>Event handlers\<close>

text \<open>One loop of \<^verbatim>\<open>onInitialAdd\<close> over a list of containers, with the flag \<^verbatim>\<open>added\<close>.\<close>

fun initialAddLoop :: "Controller \<Rightarrow> Pod \<Rightarrow> Container list \<Rightarrow> bool \<Rightarrow> bool \<times> Controller" where
  "initialAddLoop ctl pod [] added = (added, ctl)"
| "initialAddLoop ctl pod (container # rest) added =
     (if shouldIncludeContainer ctl pod container
      then initialAddLoop (addContainer ctl pod container True) pod rest True
      else initialAddLoop ctl pod rest added)"

definition onInitialAdd :: "Controller \<Rightarrow> Pod \<Rightarrow> bool \<times> Controller" where
  "onInitialAdd ctl pod =
     (case initialAddLoop ctl pod (InitContainers (Spec pod)) False of
        (added, ctl1) \<Rightarrow> initialAddLoop ctl1 pod (Containers (Spec pod)) added)"

fun addLoop :: "Controller \<Rightarrow> Pod \<Rightarrow> Container list \<Rightarrow> Controller" where
  "addLoop ctl pod [] = ctl"
| "addLoop ctl pod (container # rest) =
     (if shouldIncludeContainer ctl pod container
      then addLoop (addContainer ctl pod container False) pod rest
      else addLoop ctl pod rest)"

definition onAdd :: "Controller \<Rightarrow> Pod \<Rightarrow> Controller" where
  "onAdd ctl pod = addLoop (addLoop ctl pod (InitContainers (Spec pod))) pod (Containers (Spec pod))"

text \<open>The inner loop of \<^verbatim>\<open>onUpdate\<close>: the first container of that name, or nil.\<close>

fun findContainer :: "Container list \<Rightarrow> string \<Rightarrow> Container option" where
  "findContainer [] name = None"
| "findContainer (c # rest) name =
     (if container_Name c = name then Some c else findContainer rest name)"

fun updateLoop :: "Controller \<Rightarrow> Pod \<Rightarrow> Container list \<Rightarrow> ContainerStatus list \<Rightarrow> Controller" where
  "updateLoop ctl pod containers [] = ctl"
| "updateLoop ctl pod containers (containerStatus # rest) =
     (case findContainer containers (status_Name containerStatus) of
        None \<Rightarrow> updateLoop ctl pod containers rest
      | Some container \<Rightarrow>
          if shouldIncludeContainer ctl pod container
          then updateLoop (addContainer ctl pod container False) pod containers rest
          else updateLoop (deleteContainer ctl pod container) pod containers rest)"

definition onUpdate :: "Controller \<Rightarrow> Pod \<Rightarrow> Controller" where
  "onUpdate ctl pod =
     updateLoop ctl pod (Containers (Spec pod)) (allContainerStatusesForPod pod)"

fun deleteLoop :: "Controller \<Rightarrow> Pod \<Rightarrow> Container list \<Rightarrow> Controller" where
  "deleteLoop ctl pod [] = ctl"
| "deleteLoop ctl pod (container # rest) = deleteLoop (deleteContainer ctl pod container) pod rest"

definition onDelete :: "Controller \<Rightarrow> Pod \<Rightarrow> Controller" where
  "onDelete ctl pod = deleteLoop ctl pod (Containers (Spec pod))"

section \<open>The run loop\<close>

text \<open>
  \<^verbatim>\<open>Run\<close> ends in one of three ways: it returns the wrapped listing error (the namespace
  and the error wrapped), it panics on an unexpected listing result, or it reaches the
  wait for the cancellation signal (\<open>Inr\<close>). The model follows the thread of \<^verbatim>\<open>Run\<close>
  up to that wait; the informers it starts deliver their events on threads of their own,
  through \<^verbatim>\<open>onAdd\<close>, \<^verbatim>\<open>onUpdate\<close> and \<^verbatim>\<open>onDelete\<close>.
\<close>

datatype RunError = ListingError string string | UnexpectedReturnType

fun podListLoop :: "Controller \<Rightarrow> Pod list \<Rightarrow> bool \<Rightarrow> bool \<times> Controller" where
  "podListLoop ctl [] discoveredAny = (discoveredAny, ctl)"
| "podListLoop ctl (pod # rest) discoveredAny =
     (case onInitialAdd ctl pod of
        (added, ctl1) \<Rightarrow> podListLoop ctl1 rest (if added then True else discoveredAny))"

fun itemLoop :: "Controller \<Rightarrow> RuntimeObject list \<Rightarrow> bool \<Rightarrow> bool \<times> Controller" where
  "itemLoop ctl [] discoveredAny = (discoveredAny, ctl)"
| "itemLoop ctl (PodItem pod # rest) discoveredAny =
     (case onInitialAdd ctl pod of
        (added, ctl1) \<Rightarrow> itemLoop ctl1 rest (if added then True else discoveredAny))"
| "itemLoop ctl (OtherItem # rest) discoveredAny = itemLoop ctl rest discoveredAny"

fun namespaceLoop :: "Controller \<Rightarrow> string list \<Rightarrow> bool \<Rightarrow> (RunError + bool) \<times> Controller" where
  "namespaceLoop ctl [] discoveredAny = (Inr discoveredAny, ctl)"
| "namespaceLoop ctl (ns # rest) discoveredAny =
     (let listed = client ctl (trace ctl) ns;
          ctl1 = ctl\<lparr>trace := trace ctl @ [ListCall ns listed]\<rparr>
      in case listed of
           Inl err \<Rightarrow> (Inl (ListingError ns err), ctl1)
         | Inr (PodList items) \<Rightarrow>
             (case podListLoop ctl1 items discoveredAny of
                (d, ctl2) \<Rightarrow>
                  namespaceLoop (ctl2\<lparr>trace := trace ctl2 @ [InformerRun ns]\<rparr>) rest d)
         | Inr (InternalList items) \<Rightarrow>
             (case itemLoop ctl1 items discoveredAny of
                (d, ctl2) \<Rightarrow>
                  namespaceLoop (ctl2\<lparr>trace := trace ctl2 @ [InformerRun ns]\<rparr>) rest d)
         | Inr OtherObject \<Rightarrow> (Inl UnexpectedReturnType, ctl1))"

definition Run :: "Controller \<Rightarrow> (RunError + unit) \<times> Controller" where
  "Run ctl =
     (case namespaceLoop ctl (Namespaces (options ctl)) False of
        (Inl e, ctl1) \<Rightarrow> (Inl e, ctl1)
      | (Inr discoveredAny, ctl1) \<Rightarrow>
          (Inr (),
           if \<not> discoveredAny then ctl1\<lparr>trace := trace ctl1 @ [NothingDiscovered]\<rparr>
           else ctl1))"

section \<open>Sequences of calls and reading a trace\<close>

text \<open>
  The two operations on the registry run under the lock, so that any execution of the
  handlers is a sequence of such calls.
\<close>

datatype call = AddContainer Pod Container bool | DeleteContainer Pod Container

fun applyCall :: "Controller \<Rightarrow> call \<Rightarrow> Controller" where
  "applyCall ctl (AddContainer pod container initialAdd) = addContainer ctl pod container initialAdd"
| "applyCall ctl (DeleteContainer pod container) = deleteContainer ctl pod container"

definition applyCalls :: "Controller \<Rightarrow> call list \<Rightarrow> Controller" where
  "applyCalls ctl calls = foldl applyCall ctl calls"

text \<open>The pod and the container a call is made for.\<close>

fun callPod :: "call \<Rightarrow> Pod" where
  "callPod (AddContainer pod container initialAdd) = pod"
| "callPod (DeleteContainer pod container) = pod"

fun callContainer :: "call \<Rightarrow> Container" where
  "callContainer (AddContainer pod container initialAdd) = container"
| "callContainer (DeleteContainer pod container) = container"

text \<open>
  Reading a trace from a set of keys with an active session: the launch of a tailer
  opens the session of its key, the stop of a tailer closes it. The reading fails
  (\<open>None\<close>) when a tailer is launched for a key whose session is active, when
  \<^verbatim>\<open>OnEnter\<close> is invoked for such a key, or when a tailer is stopped whose key has no
  active session.
\<close>

fun sessionsAfter :: "string set \<Rightarrow> event list \<Rightarrow> string set option" where
  "sessionsAfter active [] = Some active"
| "sessionsAfter active (Enter pod container initialAdd entered # es) =
     (if buildKey pod container \<in> active then None else sessionsAfter active es)"
| "sessionsAfter active (TailerRun key tailer # es) =
     (if key \<in> active then None else sessionsAfter (insert key active) es)"
| "sessionsAfter active (TailerStop key tailer # es) =
     (if key \<in> active then sessionsAfter (active - {key}) es else None)"
| "sessionsAfter active (ListCall ns listed # es) = sessionsAfter active es"
| "sessionsAfter active (InformerRun ns # es) = sessionsAfter active es"
| "sessionsAfter active (Exit pod container # es) = sessionsAfter active es"
| "sessionsAfter active (NothingDiscovered # es) = sessionsAfter active es"

fun isEnter :: "event \<Rightarrow> bool" where
  "isEnter (Enter pod container initialAdd entered) = True"
| "isEnter e = False"

fun isTailerRun :: "event \<Rightarrow> bool" where
  "isTailerRun (TailerRun key tailer) = True"
| "isTailerRun e = False"

text \<open>
  The initial-add pass calls \<^verbatim>\<open>addContainer\<close> with the flag true, the handlers of live
  events with the flag false. So \<^verbatim>\<open>OnEnter\<close> was invoked by the initial-add pass when
  its record carries the flag true; and a session was started by the initial-add pass
  when such a record is followed at once by the launch of a tailer (both are left by one
  call of \<^verbatim>\<open>addContainer\<close>, under the lock).
\<close>

fun isInitialEnter :: "event \<Rightarrow> bool" where
  "isInitialEnter (Enter pod container initialAdd entered) = initialAdd"
| "isInitialEnter e = False"

fun startedInitially :: "event list \<Rightarrow> bool" where
  "startedInitially [] = False"
| "startedInitially (Enter pod container initialAdd entered # TailerRun key tailer # es) =
     (initialAdd \<or> startedInitially es)"
| "startedInitially (e # es) = startedInitially es"

text \<open>The event is the stop of the tailer registered under the key \<open>k\<close>.\<close>

fun isStopOf :: "string \<Rightarrow> event \<Rightarrow> bool" where
  "isStopOf k (TailerStop key tailer) = (key = k)"
| "isStopOf k e = False"

text \<open>The events of a later controller that the earlier one does not have yet.\<close>

definition eventsSince :: "Controller \<Rightarrow> Controller \<Rightarrow> event list" where
  "eventsSince ctl ctl1 = drop (length (trace ctl)) (trace ctl1)"

text \<open>The pods of a listing answer, and the pods listed in a trace.\<close>

fun itemPods :: "RuntimeObject list \<Rightarrow> Pod list" where
  "itemPods [] = []"
| "itemPods (PodItem pod # rest) = pod # itemPods rest"
| "itemPods (OtherItem # rest) = itemPods rest"

fun podsOf :: "string + ListObject \<Rightarrow> Pod list" where
  "podsOf (Inl err) = []"
| "podsOf (Inr (PodList items)) = items"
| "podsOf (Inr (InternalList items)) = itemPods items"
| "podsOf (Inr OtherObject) = []"

fun listedPods :: "event list \<Rightarrow> Pod list" where
  "listedPods [] = []"
| "listedPods (ListCall ns listed # es) = podsOf listed @ listedPods es"
| "listedPods (e # es) = listedPods es"

text \<open>The containers of a pod in the order of the add passes: init containers first.\<close>

definition podContainers :: "Pod \<Rightarrow> Container list" where
  "podContainers pod = InitContainers (Spec pod) @ Containers (Spec pod)"

text \<open>Some container of some of the pods passes the inclusion policy.\<close>

definition discovered :: "Controller \<Rightarrow> Pod list \<Rightarrow> bool" where
  "discovered ctl pods =
     list_ex (\<lambda>pod. list_ex (shouldIncludeContainer ctl pod) (podContainers pod)) pods"

text \<open>
  The status entries a pod carries: init-container statuses, then regular ones. The
  entries of a container that are in the running state, and their start times.
\<close>

definition podStatuses :: "Pod \<Rightarrow> ContainerStatus list" where
  "podStatuses pod = InitContainerStatuses (Status pod) @ ContainerStatuses (Status pod)"

definition runningEntries :: "Pod \<Rightarrow> Container \<Rightarrow> ContainerStatus list" where
  "runningEntries pod container =
     filter (\<lambda>s. status_Name s = container_Name container \<and> Running (State s) \<noteq> None)
            (podStatuses pod)"

definition runningStartTimes :: "Pod \<Rightarrow> Container \<Rightarrow> time list" where
  "runningStartTimes pod container =
     map (\<lambda>s. StartedAt (the (Running (State s)))) (runningEntries pod container)"

text \<open>No registered tailer belongs to a pod of the namespace.\<close>

definition noneOfNamespace :: "string \<Rightarrow> Controller \<Rightarrow> bool" where
  "noneOfNamespace ns ctl = (\<forall>k t. tailers ctl k = Some t \<longrightarrow> Namespace (tailer_Pod t) \<noteq> ns)"

text \<open>
  The calls of the handlers, as the specification words them: \<^verbatim>\<open>onAdd\<close> and the
  initial-add pass add every container that passes the inclusion policy, init containers
  first; \<^verbatim>\<open>onUpdate\<close> takes each status entry whose name is that of a regular
  container, and adds or deletes that container; \<^verbatim>\<open>onDelete\<close> deletes every regular
  container.
\<close>

definition includedContainers :: "Controller \<Rightarrow> Pod \<Rightarrow> Container list" where
  "includedContainers ctl pod = filter (shouldIncludeContainer ctl pod) (podContainers pod)"

definition addCalls :: "Controller \<Rightarrow> Pod \<Rightarrow> bool \<Rightarrow> call list" where
  "addCalls ctl pod initialAdd =
     map (\<lambda>container. AddContainer pod container initialAdd) (includedContainers ctl pod)"

definition updateCalls :: "Controller \<Rightarrow> Pod \<Rightarrow> ContainerStatus list \<Rightarrow> call list" where
  "updateCalls ctl pod statuses =
     map (\<lambda>container. if shouldIncludeContainer ctl pod container
                       then AddContainer pod container False
                       else DeleteContainer pod container)
         (List.map_filter (\<lambda>s. findContainer (Containers (Spec pod)) (status_Name s)) statuses)"

definition deleteCalls :: "Pod \<Rightarrow> call list" where
  "deleteCalls pod = map (DeleteContainer pod) (Containers (Spec pod))"

text \<open>The events that \<^verbatim>\<open>addContainer\<close> can leave, and the namespaces listed in a trace.\<close>

definition sessionEvent :: "event \<Rightarrow> bool" where
  "sessionEvent e = (isEnter e \<or> isTailerRun e)"

fun listedNamespaces :: "event list \<Rightarrow> string list" where
  "listedNamespaces [] = []"
| "listedNamespaces (ListCall ns listed # es) = ns # listedNamespaces es"
| "listedNamespaces (e # es) = listedNamespaces es"

text \<open>
  A later state of a controller: the trace has grown by some events and the options,
  the client, the callbacks and the clock are the same.
\<close>

definition extends :: "Controller \<Rightarrow> Controller \<Rightarrow> event list \<Rightarrow> bool" where
  "extends ctl ctl1 es \<longleftrightarrow>
     trace ctl1 = trace ctl @ es \<and> options ctl1 = options ctl \<and> client ctl1 = client ctl
     \<and> callbacks ctl1 = callbacks ctl \<and> now ctl1 = now ctl"

text \<open>
  A controller is consistent when its trace reads without fault and leaves active the
  sessions of the keys of the registry.
\<close>

definition consistent :: "Controller \<Rightarrow> bool" where
  "consistent ctl \<longleftrightarrow> sessionsAfter {} (trace ctl) = Some (dom (tailers ctl))"

text \<open>The events of a run.\<close>

definition runEvents :: "Controller \<Rightarrow> event list" where
  "runEvents ctl = eventsSince ctl (snd (Run ctl))"

text \<open>
  What holds after the namespace loop has run over the namespaces \<open>nss\<close> from the
  controller \<open>ctl\<close> with the flag \<open>d\<close>, ending with the result \<open>r\<close> in the controller
  \<open>ctl1\<close> after the events \<open>es\<close>.
\<close>

definition loopPost ::
  "Controller \<Rightarrow> string list \<Rightarrow> bool \<Rightarrow> RunError + bool \<Rightarrow> Controller \<Rightarrow> event list \<Rightarrow> bool" where
  "loopPost ctl nss d r ctl1 es \<longleftrightarrow>
     extends ctl ctl1 es
     \<and> NothingDiscovered \<notin> set es
     \<and> (list_ex isEnter es \<or> list_ex isTailerRun es \<longrightarrow> discovered ctl (listedPods es))
     \<and> (\<forall>d1. r = Inr d1 \<longrightarrow> d1 = (d \<or> discovered ctl (listedPods es)) \<and> listedNamespaces es = nss)
     \<and> (\<forall>ns. InformerRun ns \<in> set es \<longrightarrow> ns \<in> set nss)
     \<and> (\<forall>ns. noneOfNamespace ns ctl \<and> (\<forall>pod \<in> set (listedPods es). Namespace pod \<noteq> ns)
            \<longrightarrow> noneOfNamespace ns ctl1)"

section \<open>Live events beside the run\<close>

text \<open>
  Once an informer runs, its handlers call \<^verbatim>\<open>addContainer\<close> with the flag false and
  \<^verbatim>\<open>deleteContainer\<close> on a thread of their own. Under the lock each such call is one
  step, which falls before or after a step of the thread of \<^verbatim>\<open>Run\<close>. A schedule gives,
  for each step of that thread in turn (a listing, a call of \<^verbatim>\<open>addContainer\<close>, the
  start of an informer, the callback \<^verbatim>\<open>OnNothingDiscovered\<close>), the calls of the handlers
  that come before it; calls the handlers cannot make are left out, and nothing comes
  before the first informer runs.
\<close>

type_synonym schedule = "call list list"

fun liveCall :: "call \<Rightarrow> bool" where
  "liveCall (AddContainer pod container initialAdd) = (\<not> initialAdd)"
| "liveCall (DeleteContainer pod container) = True"

fun isInformerRun :: "event \<Rightarrow> bool" where
  "isInformerRun (InformerRun ns) = True"
| "isInformerRun e = False"

fun beside :: "Controller \<Rightarrow> schedule \<Rightarrow> Controller \<times> schedule" where
  "beside ctl [] = (ctl, [])"
| "beside ctl (calls # rest) =
     (if list_ex isInformerRun (trace ctl) then (applyCalls ctl (filter liveCall calls), rest)
      else (ctl, rest))"

text \<open>
  The loops of \<^verbatim>\<open>Run\<close> with the calls of the schedule between their steps. With the
  empty schedule they are the loops above.
\<close>

fun initialAddLoopLive ::
  "Controller \<Rightarrow> schedule \<Rightarrow> Pod \<Rightarrow> Container list \<Rightarrow> bool \<Rightarrow> bool \<times> Controller \<times> schedule" where
  "initialAddLoopLive ctl sch pod [] added = (added, ctl, sch)"
| "initialAddLoopLive ctl sch pod (container # rest) added =
     (if shouldIncludeContainer ctl pod container
      then (case beside ctl sch of
              (ctl1, sch1) \<Rightarrow>
                initialAddLoopLive (addContainer ctl1 pod container True) sch1 pod rest True)
      else initialAddLoopLive ctl sch pod rest added)"

definition onInitialAddLive :: "Controller \<Rightarrow> schedule \<Rightarrow> Pod \<Rightarrow> bool \<times> Controller \<times> schedule" where
  "onInitialAddLive ctl sch pod =
     (case initialAddLoopLive ctl sch pod (InitContainers (Spec pod)) False of
        (added, ctl1, sch1) \<Rightarrow> initialAddLoopLive ctl1 sch1 pod (Containers (Spec pod)) added)"

fun podListLoopLive ::
  "Controller \<Rightarrow> schedule \<Rightarrow> Pod list \<Rightarrow> bool \<Rightarrow> bool \<times> Controller \<times> schedule" where
  "podListLoopLive ctl sch [] discoveredAny = (discoveredAny, ctl, sch)"
| "podListLoopLive ctl sch (pod # rest) discoveredAny =
     (case onInitialAddLive ctl sch pod of
        (added, ctl1, sch1) \<Rightarrow>
          podListLoopLive ctl1 sch1 rest (if added then True else discoveredAny))"

fun itemLoopLive ::
  "Controller \<Rightarrow> schedule \<Rightarrow> RuntimeObject list \<Rightarrow> bool \<Rightarrow> bool \<times> Controller \<times> schedule" where
  "itemLoopLive ctl sch [] discoveredAny = (discoveredAny, ctl, sch)"
| "itemLoopLive ctl sch (PodItem pod # rest) discoveredAny =
     (case onInitialAddLive ctl sch pod of
        (added, ctl1, sch1) \<Rightarrow>
          itemLoopLive ctl1 sch1 rest (if added then True else discoveredAny))"
| "itemLoopLive ctl sch (OtherItem # rest) discoveredAny = itemLoopLive ctl sch rest discoveredAny"

fun namespaceLoopLive ::
  "Controller \<Rightarrow> schedule \<Rightarrow> string list \<Rightarrow> bool \<Rightarrow> (RunError + bool) \<times> Controller \<times> schedule" where
  "namespaceLoopLive ctl sch [] discoveredAny = (Inr discoveredAny, ctl, sch)"
| "namespaceLoopLive ctl sch (ns # rest) discoveredAny =
     (case beside ctl sch of
        (ctl0, sch0) \<Rightarrow>
          let listed = client ctl0 (trace ctl0) ns;
              ctl1 = ctl0\<lparr>trace := trace ctl0 @ [ListCall ns listed]\<rparr>
          in case listed of
               Inl err \<Rightarrow> (Inl (ListingError ns err), ctl1, sch0)
             | Inr (PodList items) \<Rightarrow>
                 (case podListLoopLive ctl1 sch0 items discoveredAny of
                    (d, ctl2, sch2) \<Rightarrow>
                      (case beside ctl2 sch2 of
                         (ctl3, sch3) \<Rightarrow>
                           namespaceLoopLive (ctl3\<lparr>trace := trace ctl3 @ [InformerRun ns]\<rparr>)
                             sch3 rest d))
             | Inr (InternalList items) \<Rightarrow>
                 (case itemLoopLive ctl1 sch0 items discoveredAny of
                    (d, ctl2, sch2) \<Rightarrow>
                      (case beside ctl2 sch2 of
                         (ctl3, sch3) \<Rightarrow>
                           namespaceLoopLive (ctl3\<lparr>trace := trace ctl3 @ [InformerRun ns]\<rparr>)
                             sch3 rest d))
             | Inr OtherObject \<Rightarrow> (Inl UnexpectedReturnType, ctl1, sch0))"

definition RunLive :: "Controller \<Rightarrow> schedule \<Rightarrow> (RunError + unit) \<times> Controller \<times> schedule" where
  "RunLive ctl sch =
     (case namespaceLoopLive ctl sch (Namespaces (options ctl)) False of
        (Inl e, ctl1, sch1) \<Rightarrow> (Inl e, ctl1, sch1)
      | (Inr discoveredAny, ctl1, sch1) \<Rightarrow>
          if \<not> discoveredAny
          then (case beside ctl1 sch1 of
                  (ctl2, sch2) \<Rightarrow>
                    (Inr (), ctl2\<lparr>trace := trace ctl2 @ [NothingDiscovered]\<rparr>, sch2))
          else (Inr (), ctl1, sch1))"

text \<open>The events that \<^verbatim>\<open>addContainer\<close> and \<^verbatim>\<open>deleteContainer\<close> can leave.\<close>

fun handlerEvent :: "event \<Rightarrow> bool" where
  "handlerEvent (ListCall ns listed) = False"
| "handlerEvent (InformerRun ns) = False"
| "handlerEvent NothingDiscovered = False"
| "handlerEvent e = True"

text \<open>What holds after the namespace loop with live events beside it.\<close>

definition livePost ::
  "Controller \<Rightarrow> string list \<Rightarrow> bool \<Rightarrow> RunError + bool \<Rightarrow> Controller \<Rightarrow> event list \<Rightarrow> bool" where
  "livePost ctl nss d r ctl1 es \<longleftrightarrow>
     extends ctl ctl1 es
     \<and> NothingDiscovered \<notin> set es
     \<and> (list_ex isInitialEnter es \<longrightarrow> discovered ctl (listedPods es))
     \<and> (\<forall>d1. r = Inr d1 \<longrightarrow> d1 = (d \<or> discovered ctl (listedPods es)) \<and> listedNamespaces es = nss)"

text \<open>The events of a run with live events beside it.\<close>

definition runLiveEvents :: "Controller \<Rightarrow> schedule \<Rightarrow> event list" where
  "runLiveEvents ctl sch = eventsSince ctl (fst (snd (RunLive ctl sch)))"

section \<open>A cluster to run the model on\<close>

text \<open>
  Namespace \<open>ns1\<close> has one running pod \<open>p1\<close> with the init container \<open>init-a\<close> and
  the containers \<open>c1\<close> and \<open>c2\<close>; \<open>c1\<close> has two running-state entries with different
  start times. The inclusion matcher matches the container name \<open>c1\<close>, the exclusion
  matcher matches nothing.
\<close>

definition runningAt :: "time \<Rightarrow> ContainerState" where
  "runningAt t = \<lparr>Waiting = None, Running = Some \<lparr>StartedAt = t\<rparr>, Terminated = None\<rparr>"

definition terminatedState :: ContainerState where
  "terminatedState = \<lparr>Waiting = None, Running = None, Terminated = Some ()\<rparr>"

definition waitingState :: ContainerState where
  "waitingState = \<lparr>Waiting = Some (), Running = None, Terminated = None\<rparr>"

definition initA :: Container where
  "initA = \<lparr>container_Name = ''init-a'', Image = ''busybox''\<rparr>"

definition c1 :: Container where
  "c1 = \<lparr>container_Name = ''c1'', Image = ''nginx''\<rparr>"

definition c2 :: Container where
  "c2 = \<lparr>container_Name = ''c2'', Image = ''redis''\<rparr>"

definition p1 :: Pod where
  "p1 = \<lparr>Namespace = ''ns1'', pod_Name = ''p1'',
          Spec = \<lparr>InitContainers = [initA], Containers = [c1, c2]\<rparr>,
          Status = \<lparr>Phase = ''Running'',
                    InitContainerStatuses =
                      [\<lparr>status_Name = ''init-a'', State = terminatedState\<rparr>],
                    ContainerStatuses =
                      [\<lparr>status_Name = ''c1'', State = runningAt 100\<rparr>,
                       \<lparr>status_Name = ''c1'', State = runningAt 70\<rparr>,
                       \<lparr>status_Name = ''c2'', State = waitingState\<rparr>]\<rparr>\<rparr>"

text \<open>The same pod after it has run to completion.\<close>

definition p1Succeeded :: Pod where
  "p1Succeeded = p1\<lparr>Status := (Status p1)\<lparr>Phase := ''Succeeded''\<rparr>\<rparr>"

fun matchC1 :: Matcher where
  "matchC1 (ContainerObject container) = (container_Name container = ''c1'')"
| "matchC1 (PodObject pod) = False"

definition opts1 :: ControllerOptions where
  "opts1 = \<lparr>Namespaces = [''ns1''], InclusionMatcher = matchC1,
             ExclusionMatcher = (\<lambda>obj. False), SinceStart = False, Since = None,
             ContainerName = []\<rparr>"

text \<open>A client that lists \<open>p1\<close> in every namespace, an embedder that admits every container
  and a clock that stands at 1000 seconds.\<close>

definition ctlC1 :: Controller where
  "ctlC1 = NewController (\<lambda>tr ns. Inr (PodList [p1])) opts1
            \<lparr>OnEnter = (\<lambda>tr pod container initialAdd. True)\<rparr> (\<lambda>tr. 1000 * Second)"

text \<open>The same controller with an inclusion matcher that matches everything.\<close>

definition ctlAll :: Controller where
  "ctlAll = ctlC1\<lparr>options := opts1\<lparr>InclusionMatcher := (\<lambda>obj. True)\<rparr>\<rparr>"

text \<open>The pod \<open>p1\<close> before its regular containers have any status entry.\<close>

definition p1InitOnly :: Pod where
  "p1InitOnly = p1\<lparr>Status := (Status p1)\<lparr>ContainerStatuses := []\<rparr>\<rparr>"

text \<open>A client that lists only the completed pod: nothing to discover.\<close>

definition ctlNone :: Controller where
  "ctlNone = ctlC1\<lparr>client := (\<lambda>tr ns. Inr (PodList [p1Succeeded]))\<rparr>"

text \<open>
  A client that lists the pod before its regular containers have a status entry, and the
  schedule in which the handler of a live event adds \<open>c1\<close> of the pod as it is later,
  after the informer has started and before the test of \<^verbatim>\<open>discoveredAny\<close>.
\<close>

definition ctlInitOnly :: Controller where
  "ctlInitOnly = ctlC1\<lparr>client := (\<lambda>tr ns. Inr (PodList [p1InitOnly]))\<rparr>"

definition lateAdd :: schedule where
  "lateAdd = [[], [], [AddContainer p1 c1 False]]"

text \<open>The same controller with an embedder that vetoes every start.\<close>

definition ctlVeto :: Controller where
  "ctlVeto = ctlC1\<lparr>callbacks := \<lparr>OnEnter = (\<lambda>tr pod container initialAdd. False)\<rparr>\<rparr>"




section \<open>Inclusion, status entries and timestamps\<close>

lemma statusPresent_iff:
  "statusPresent ss c \<longleftrightarrow>
     (\<exists>s \<in> set ss. status_Name s = container_Name c
        \<and> (Waiting (State s) \<noteq> None \<or> Running (State s) \<noteq> None \<or> Terminated (State s) \<noteq> None))"
  by (induction ss) auto

lemma statusPresent_zero:
  "statusPresent (replicate n zeroContainerStatus @ ss) c = statusPresent ss c"
  by (induction n) (simp_all add: zeroContainerStatus_def)

lemma statusPresent_all:
  "statusPresent (allContainerStatusesForPod pod) c = statusPresent (podStatuses pod) c"
  by (simp add: allContainerStatusesForPod_def podStatuses_def statusPresent_zero Let_def)

lemma policy_chain:
  "(if \<not> (a \<or> b) then False else if \<not> p then False else if n1 \<and> n2 then False
    else if e1 then False else if \<not> (i1 \<or> i2) then False else \<not> e2)
   = ((b \<or> a) \<and> p \<and> (\<not> n1 \<or> \<not> n2) \<and> \<not> e1 \<and> (i1 \<or> i2) \<and> \<not> e2)"
  by auto

text \<open>
  Claim C1. A container is included exactly when the pod's phase is Pending or Running,
  some status entry of the pod (init-container statuses, then regular ones) carries the
  container's name and a waiting, running or terminated state, the container-name filter
  is empty or equal to the container's name, the exclusion matcher matches neither the
  pod nor the container, and the inclusion matcher matches the pod or the container.
\<close>

theorem shouldIncludeContainer_iff:
  "shouldIncludeContainer ctl pod container \<longleftrightarrow>
     (Phase (Status pod) = PodPending \<or> Phase (Status pod) = PodRunning)
     \<and> (\<exists>s \<in> set (InitContainerStatuses (Status pod) @ ContainerStatuses (Status pod)).
           status_Name s = container_Name container
           \<and> (Waiting (State s) \<noteq> None \<or> Running (State s) \<noteq> None
              \<or> Terminated (State s) \<noteq> None))
     \<and> (ContainerName (options ctl) = [] \<or> ContainerName (options ctl) = container_Name container)
     \<and> \<not> ExclusionMatcher (options ctl) (PodObject pod)
     \<and> (InclusionMatcher (options ctl) (PodObject pod)
        \<or> InclusionMatcher (options ctl) (ContainerObject container))
     \<and> \<not> ExclusionMatcher (options ctl) (ContainerObject container)"
proof -
  have present: "statusPresent (allContainerStatusesForPod pod) container \<longleftrightarrow>
     (\<exists>s \<in> set (InitContainerStatuses (Status pod) @ ContainerStatuses (Status pod)).
           status_Name s = container_Name container
           \<and> (Waiting (State s) \<noteq> None \<or> Running (State s) \<noteq> None
              \<or> Terminated (State s) \<noteq> None))"
    using statusPresent_iff [of "podStatuses pod" container]
    by (simp only: statusPresent_all podStatuses_def)
  show ?thesis
    unfolding shouldIncludeContainer_def present policy_chain by simp
qed


lemmas ex_defs = p1_def c1_def c2_def initA_def opts1_def ctlC1_def NewController_def
  runningAt_def terminatedState_def waitingState_def PodRunning_def PodPending_def
  podStatuses_def zeroContainerStatus_def allContainerStatusesForPod_def buildKey_def
  Second_def

theorem shouldIncludeContainer_iff_witness:
  "shouldIncludeContainer ctlC1 p1 c1 \<and> \<not> shouldIncludeContainer ctlC1 p1 c2
   \<and> \<not> shouldIncludeContainer ctlC1 p1Succeeded c1"
  using shouldIncludeContainer_iff [of ctlC1 p1 c1] shouldIncludeContainer_iff [of ctlC1 p1 c2]
    shouldIncludeContainer_iff [of ctlC1 p1Succeeded c1]
  by (simp add: ex_defs p1Succeeded_def)

lemma allContainerStatusesForPod_eq:
  "allContainerStatusesForPod pod =
     replicate (length (podStatuses pod)) zeroContainerStatus @ podStatuses pod"
  by (simp add: allContainerStatusesForPod_def podStatuses_def Let_def add.commute)

text \<open>
  Claim C4. The claim says that the sequence of status entries is the init-container
  statuses followed by the regular ones and nothing else. On the pod \<open>p1\<close>, which has
  four status entries, the function returns eight: four zero-valued entries come first.
\<close>

theorem allContainerStatusesForPod_padded:
  "allContainerStatusesForPod p1 = replicate 4 zeroContainerStatus @ podStatuses p1
   \<and> allContainerStatusesForPod p1 \<noteq> podStatuses p1
   \<and> length (allContainerStatusesForPod p1) = 8"
  by (simp add: ex_defs eval_nat_numeral)

lemma earliestRunning_zero:
  "earliestRunning (replicate n zeroContainerStatus @ ss) c t = earliestRunning ss c t"
  by (induction n) (simp_all add: zeroContainerStatus_def)

lemma earliestRunning_Some:
  "earliestRunning ss c (Some t0) =
     Some (fold min (map (\<lambda>s. StartedAt (the (Running (State s))))
                 (filter (\<lambda>s. status_Name s = container_Name c \<and> Running (State s) \<noteq> None) ss)) t0)"
  by (induction ss arbitrary: t0) (auto simp: min_def split: option.splits)

lemma earliestRunning_None:
  "earliestRunning ss c None =
     (case map (\<lambda>s. StartedAt (the (Running (State s))))
                 (filter (\<lambda>s. status_Name s = container_Name c \<and> Running (State s) \<noteq> None) ss) of
        [] \<Rightarrow> None
      | x # xs \<Rightarrow> Some (fold min xs x))"
  by (induction ss) (auto simp: earliestRunning_Some split: option.splits)

lemma fold_min_Min:
  "(case ts of [] \<Rightarrow> None | x # xs \<Rightarrow> Some (fold min xs x))
     = (if ts = [] then None else Some (Min (set ts :: int set)))"
proof (cases ts)
  case Nil
  then show ?thesis by simp
next
  case (Cons x xs)
  have "Min (set (x # xs)) = fold min xs x"
    by (rule Min.set_eq_fold)
  with Cons show ?thesis by simp
qed

lemma earliestRunning_eq:
  "earliestRunning ss c None =
     (let ts = map (\<lambda>s. StartedAt (the (Running (State s))))
                 (filter (\<lambda>s. status_Name s = container_Name c \<and> Running (State s) \<noteq> None) ss)
      in if ts = [] then None else Some (Min (set ts)))"
  unfolding earliestRunning_None Let_def by (rule fold_min_Min)

lemma earliestRunning_pod:
  "earliestRunning (allContainerStatusesForPod pod) c None =
     (if runningEntries pod c = [] then None else Some (Min (set (runningStartTimes pod c))))"
proof -
  have "earliestRunning (allContainerStatusesForPod pod) c None
          = earliestRunning (podStatuses pod) c None"
    by (simp only: allContainerStatusesForPod_eq earliestRunning_zero)
  then show ?thesis
    by (simp add: earliestRunning_eq [of "podStatuses pod"] runningStartTimes_def
        runningEntries_def Let_def)
qed

lemma getStartTimestamp_ok_trace:
  "snd (getStartTimestamp (ctl\<lparr>trace := tr\<rparr>) pod c i) = snd (getStartTimestamp ctl pod c i)"
  by (simp add: getStartTimestamp_def split: option.splits)

text \<open>
  Claim C2. The start timestamp is resolved by priority: no timestamp when replay from
  start is configured; else the configured instant; else, on an initial add, the clock
  minus 5 seconds; else the earliest start time among the pod's status entries of the
  container's name that are in the running state, and a failure when there is none. When
  the resolution fails, \<^verbatim>\<open>addContainer\<close> registers nothing and launches no tailer.
\<close>

theorem getStartTimestamp_policy:
  "getStartTimestamp ctl pod container initialAdd =
     (if SinceStart (options ctl) then (None, True)
      else case Since (options ctl) of
             Some t \<Rightarrow> (Some t, True)
           | None \<Rightarrow>
               if initialAdd then (Some (now ctl (trace ctl) - 5 * 1000000000), True)
               else if runningEntries pod container = [] then (None, False)
               else (Some (Min (set (runningStartTimes pod container))), True))
   \<and> (\<not> snd (getStartTimestamp ctl pod container initialAdd) \<longrightarrow>
        tailers (addContainer ctl pod container initialAdd) = tailers ctl
        \<and> \<not> list_ex isTailerRun (eventsSince ctl (addContainer ctl pod container initialAdd)))"
proof
  show "getStartTimestamp ctl pod container initialAdd =
     (if SinceStart (options ctl) then (None, True)
      else case Since (options ctl) of
             Some t \<Rightarrow> (Some t, True)
           | None \<Rightarrow>
               if initialAdd then (Some (now ctl (trace ctl) - 5 * 1000000000), True)
               else if runningEntries pod container = [] then (None, False)
               else (Some (Min (set (runningStartTimes pod container))), True))"
    by (simp add: getStartTimestamp_def earliestRunning_pod Second_def split: option.splits)
next
  show "\<not> snd (getStartTimestamp ctl pod container initialAdd) \<longrightarrow>
        tailers (addContainer ctl pod container initialAdd) = tailers ctl
        \<and> \<not> list_ex isTailerRun (eventsSince ctl (addContainer ctl pod container initialAdd))"
  proof
    assume fails: "\<not> snd (getStartTimestamp ctl pod container initialAdd)"
    have "\<not> snd (getStartTimestamp
             (ctl\<lparr>trace := trace ctl @ [Enter pod container initialAdd True]\<rparr>)
             pod container initialAdd)"
      using fails by (simp add: getStartTimestamp_ok_trace)
    then show "tailers (addContainer ctl pod container initialAdd) = tailers ctl
        \<and> \<not> list_ex isTailerRun (eventsSince ctl (addContainer ctl pod container initialAdd))"
      by (auto simp: addContainer_def Let_def eventsSince_def split: prod.splits)
  qed
qed

theorem getStartTimestamp_policy_witness:
  "getStartTimestamp ctlC1 p1 c1 False = (Some 70, True)
   \<and> getStartTimestamp ctlC1 p1 c1 True = (Some 995000000000, True)
   \<and> getStartTimestamp ctlC1 p1 c2 False = (None, False)
   \<and> \<not> snd (getStartTimestamp ctlC1 p1 c2 False)
   \<and> tailers (addContainer ctlC1 p1 c2 False) = tailers ctlC1
   \<and> getStartTimestamp (ctlC1\<lparr>options := opts1\<lparr>Since := Some 5\<rparr>\<rparr>) p1 c1 True = (Some 5, True)
   \<and> getStartTimestamp (ctlC1\<lparr>options := opts1\<lparr>SinceStart := True, Since := Some 5\<rparr>\<rparr>) p1 c1 True
       = (None, True)"
  using getStartTimestamp_policy [of ctlC1 p1 c2 False]
    getStartTimestamp_policy [of ctlC1 p1 c1 False]
    getStartTimestamp_policy [of ctlC1 p1 c1 True]
    getStartTimestamp_policy [of "ctlC1\<lparr>options := opts1\<lparr>Since := Some 5\<rparr>\<rparr>" p1 c1 True]
    getStartTimestamp_policy [of "ctlC1\<lparr>options := opts1\<lparr>SinceStart := True, Since := Some 5\<rparr>\<rparr>" p1 c1 True]
  by (simp add: ex_defs runningEntries_def runningStartTimes_def)

text \<open>
  Claim C7. When the key is not registered and \<^verbatim>\<open>OnEnter\<close> answers false,
  \<^verbatim>\<open>addContainer\<close> leaves the controller as it was but for the record of that one call of
  \<^verbatim>\<open>OnEnter\<close>: the registry is unchanged, the key stays absent, no tailer is launched,
  and the result depends neither on the clock nor on the pod's statuses.
\<close>

theorem addContainer_veto:
  "tailers ctl (buildKey pod container) = None
   \<Longrightarrow> \<not> OnEnter (callbacks ctl) (trace ctl) pod container initialAdd
   \<Longrightarrow> addContainer ctl pod container initialAdd
         = ctl\<lparr>trace := trace ctl @ [Enter pod container initialAdd False]\<rparr>
       \<and> tailers (addContainer ctl pod container initialAdd) = tailers ctl
       \<and> tailers (addContainer ctl pod container initialAdd) (buildKey pod container) = None
       \<and> \<not> list_ex isTailerRun (eventsSince ctl (addContainer ctl pod container initialAdd))"
  by (simp add: addContainer_def Let_def eventsSince_def)

theorem addContainer_veto_witness:
  "tailers ctlVeto (buildKey p1 c1) = None
   \<and> \<not> OnEnter (callbacks ctlVeto) (trace ctlVeto) p1 c1 True
   \<and> addContainer ctlVeto p1 c1 True = ctlVeto\<lparr>trace := [Enter p1 c1 True False]\<rparr>
   \<and> tailers (addContainer ctlVeto p1 c1 True) (buildKey p1 c1) = None"
  using addContainer_veto [of ctlVeto p1 c1 True]
  by (simp add: ctlVeto_def ctlC1_def NewController_def)

text \<open>
  Claim C8. \<^verbatim>\<open>deleteContainer\<close> on a key that is not registered changes nothing: no stop,
  no \<^verbatim>\<open>OnExit\<close>. On a registered key it removes that entry and no other, stops that
  tailer once and invokes \<^verbatim>\<open>OnExit\<close> once.
\<close>

theorem deleteContainer_cases:
  "(tailers ctl (buildKey pod container) = None \<longrightarrow> deleteContainer ctl pod container = ctl)
   \<and> (\<forall>tailer. tailers ctl (buildKey pod container) = Some tailer \<longrightarrow>
         deleteContainer ctl pod container
           = ctl\<lparr>tailers := (tailers ctl)(buildKey pod container := None),
                 trace := trace ctl @ [TailerStop (buildKey pod container) tailer,
                                       Exit pod container]\<rparr>
         \<and> tailers (deleteContainer ctl pod container) (buildKey pod container) = None
         \<and> (\<forall>k. k \<noteq> buildKey pod container \<longrightarrow>
                tailers (deleteContainer ctl pod container) k = tailers ctl k))"
  by (simp add: deleteContainer_def Let_def)

theorem deleteContainer_cases_witness:
  "tailers ctlC1 (buildKey p1 c1) = None
   \<and> deleteContainer ctlC1 p1 c1 = ctlC1
   \<and> tailers (addContainer ctlC1 p1 c1 True) (buildKey p1 c1)
       = Some \<lparr>tailer_Pod = p1, tailer_Container = c1, FromTimestamp = Some 995000000000\<rparr>
   \<and> tailers (deleteContainer (addContainer ctlC1 p1 c1 True) p1 c1) = Map.empty
   \<and> trace (deleteContainer (addContainer ctlC1 p1 c1 True) p1 c1)
       = [Enter p1 c1 True True,
          TailerRun ''ns1/p1/c1''
            \<lparr>tailer_Pod = p1, tailer_Container = c1, FromTimestamp = Some 995000000000\<rparr>,
          TailerStop ''ns1/p1/c1''
            \<lparr>tailer_Pod = p1, tailer_Container = c1, FromTimestamp = Some 995000000000\<rparr>,
          Exit p1 c1]"
  using deleteContainer_cases [of ctlC1 p1 c1]
    deleteContainer_cases [of "addContainer ctlC1 p1 c1 True" p1 c1]
  by (simp add: ctlC1_def NewController_def addContainer_def getStartTimestamp_def Let_def
      opts1_def Second_def buildKey_def p1_def c1_def)

section \<open>Handlers as sequences of calls\<close>

lemma shouldIncludeContainer_options:
  "options ctl' = options ctl \<Longrightarrow> shouldIncludeContainer ctl' pod c = shouldIncludeContainer ctl pod c"
  by (simp add: shouldIncludeContainer_def)

lemma addContainer_frame [simp]:
  "options (addContainer ctl pod c i) = options ctl"
  "client (addContainer ctl pod c i) = client ctl"
  "callbacks (addContainer ctl pod c i) = callbacks ctl"
  "now (addContainer ctl pod c i) = now ctl"
  by (simp_all add: addContainer_def Let_def split: prod.splits)

lemma deleteContainer_frame [simp]:
  "options (deleteContainer ctl pod c) = options ctl"
  "client (deleteContainer ctl pod c) = client ctl"
  "callbacks (deleteContainer ctl pod c) = callbacks ctl"
  "now (deleteContainer ctl pod c) = now ctl"
  by (simp_all add: deleteContainer_def Let_def split: option.splits)

lemma applyCall_frame [simp]:
  "options (applyCall ctl x) = options ctl"
  "client (applyCall ctl x) = client ctl"
  "callbacks (applyCall ctl x) = callbacks ctl"
  "now (applyCall ctl x) = now ctl"
  by (cases x; simp)+

lemma applyCalls_Nil [simp]: "applyCalls ctl [] = ctl"
  by (simp add: applyCalls_def)

lemma applyCalls_Cons [simp]: "applyCalls ctl (x # xs) = applyCalls (applyCall ctl x) xs"
  by (simp add: applyCalls_def)

lemma applyCalls_append: "applyCalls ctl (xs @ ys) = applyCalls (applyCalls ctl xs) ys"
  by (simp add: applyCalls_def)

lemma applyCalls_frame [simp]:
  "options (applyCalls ctl xs) = options ctl"
  "client (applyCalls ctl xs) = client ctl"
  "callbacks (applyCalls ctl xs) = callbacks ctl"
  "now (applyCalls ctl xs) = now ctl"
  by (induction xs arbitrary: ctl; simp)+

lemma addLoop_calls:
  "addLoop ctl pod cs =
     applyCalls ctl (map (\<lambda>c. AddContainer pod c False) (filter (shouldIncludeContainer ctl pod) cs))"
proof (induction cs arbitrary: ctl)
  case Nil
  show ?case by simp
next
  case (Cons c cs)
  have same: "shouldIncludeContainer (addContainer ctl pod c False) pod = shouldIncludeContainer ctl pod"
    by (rule ext) (rule shouldIncludeContainer_options, simp)
  show ?case by (simp add: Cons.IH same)
qed

lemma initialAddLoop_calls:
  "initialAddLoop ctl pod cs added =
     (added \<or> filter (shouldIncludeContainer ctl pod) cs \<noteq> [],
      applyCalls ctl (map (\<lambda>c. AddContainer pod c True) (filter (shouldIncludeContainer ctl pod) cs)))"
proof (induction cs arbitrary: ctl added)
  case Nil
  show ?case by simp
next
  case (Cons c cs)
  have same: "shouldIncludeContainer (addContainer ctl pod c True) pod = shouldIncludeContainer ctl pod"
    by (rule ext) (rule shouldIncludeContainer_options, simp)
  show ?case by (simp add: Cons.IH same)
qed

lemma shouldIncludeContainer_applyCalls:
  "shouldIncludeContainer (applyCalls ctl xs) pod = shouldIncludeContainer ctl pod"
  by (rule ext) (rule shouldIncludeContainer_options, simp)

lemma onAdd_calls: "onAdd ctl pod = applyCalls ctl (addCalls ctl pod False)"
  by (simp add: onAdd_def addLoop_calls addCalls_def includedContainers_def podContainers_def
      applyCalls_append shouldIncludeContainer_applyCalls)

lemma onInitialAdd_calls:
  "onInitialAdd ctl pod = (includedContainers ctl pod \<noteq> [], applyCalls ctl (addCalls ctl pod True))"
  by (simp add: onInitialAdd_def initialAddLoop_calls addCalls_def includedContainers_def
      podContainers_def applyCalls_append shouldIncludeContainer_applyCalls)

text \<open>
  Claim C10. \<^verbatim>\<open>onAdd\<close> and the initial-add pass make the same calls of
  \<^verbatim>\<open>addContainer\<close>, in the same order: one for each container that passes the
  inclusion policy, init containers in declaration order, then regular containers in
  declaration order. They differ in the flag they pass (false and true), and the initial-add
  pass also reports whether any container passed.
\<close>

theorem onAdd_onInitialAdd_calls:
  "onAdd ctl pod
     = applyCalls ctl (map (\<lambda>container. AddContainer pod container False)
                           (includedContainers ctl pod))
   \<and> onInitialAdd ctl pod
     = (includedContainers ctl pod \<noteq> [],
        applyCalls ctl (map (\<lambda>container. AddContainer pod container True)
                            (includedContainers ctl pod)))
   \<and> includedContainers ctl pod
     = filter (shouldIncludeContainer ctl pod) (InitContainers (Spec pod))
       @ filter (shouldIncludeContainer ctl pod) (Containers (Spec pod))"
  by (simp add: onAdd_calls onInitialAdd_calls addCalls_def includedContainers_def
      podContainers_def)

lemma deleteLoop_calls:
  "deleteLoop ctl pod cs = applyCalls ctl (map (DeleteContainer pod) cs)"
  by (induction cs arbitrary: ctl) simp_all

lemma updateCalls_Nil: "updateCalls ctl pod [] = []"
  by (simp add: updateCalls_def List.map_filter_simps)

lemma updateCalls_Cons:
  "updateCalls ctl pod (s # ss) =
     (case findContainer (Containers (Spec pod)) (status_Name s) of
        None \<Rightarrow> updateCalls ctl pod ss
      | Some c \<Rightarrow> (if shouldIncludeContainer ctl pod c then AddContainer pod c False
                   else DeleteContainer pod c) # updateCalls ctl pod ss)"
  by (simp add: updateCalls_def List.map_filter_simps split: option.splits)

lemma updateCalls_options:
  assumes "options ctl' = options ctl"
  shows "updateCalls ctl' pod statuses = updateCalls ctl pod statuses"
proof -
  have "shouldIncludeContainer ctl' pod = shouldIncludeContainer ctl pod"
    using assms by (intro ext shouldIncludeContainer_options)
  then show ?thesis by (simp add: updateCalls_def)
qed

lemma updateLoop_calls:
  "updateLoop ctl pod (Containers (Spec pod)) statuses = applyCalls ctl (updateCalls ctl pod statuses)"
proof (induction statuses arbitrary: ctl)
  case Nil
  show ?case by (simp add: updateCalls_Nil)
next
  case (Cons s statuses)
  show ?case
  proof (cases "findContainer (Containers (Spec pod)) (status_Name s)")
    case None
    then show ?thesis by (simp add: Cons.IH updateCalls_Cons)
  next
    case (Some c)
    have a: "updateCalls (addContainer ctl pod c False) pod statuses = updateCalls ctl pod statuses"
      by (rule updateCalls_options) simp
    have d: "updateCalls (deleteContainer ctl pod c) pod statuses = updateCalls ctl pod statuses"
      by (rule updateCalls_options) simp
    show ?thesis using Some by (simp add: Cons.IH updateCalls_Cons a d)
  qed
qed

lemma buildKey_same_pod:
  "buildKey pod c = buildKey pod c' \<longleftrightarrow> container_Name c = container_Name c'"
  by (simp add: buildKey_def)

lemma findContainer_Some:
  "findContainer cs n = Some c \<Longrightarrow> c \<in> set cs \<and> container_Name c = n"
  by (induction cs) (auto split: if_splits)

lemma findContainer_None:
  "findContainer cs n = None \<longleftrightarrow> n \<notin> container_Name ` set cs"
  by (induction cs) auto

lemma addContainer_other_key:
  "k \<noteq> buildKey pod c \<Longrightarrow> tailers (addContainer ctl pod c i) k = tailers ctl k"
  by (simp add: addContainer_def Let_def split: prod.splits)

lemma deleteContainer_other_key:
  "k \<noteq> buildKey pod c \<Longrightarrow> tailers (deleteContainer ctl pod c) k = tailers ctl k"
  by (simp add: deleteContainer_def Let_def split: option.splits)

lemma addContainer_stops:
  "filter (isStopOf k) (trace (addContainer ctl pod c i)) = filter (isStopOf k) (trace ctl)"
  by (simp add: addContainer_def Let_def split: prod.splits)

lemma deleteContainer_stops:
  "k \<noteq> buildKey pod c \<Longrightarrow>
   filter (isStopOf k) (trace (deleteContainer ctl pod c)) = filter (isStopOf k) (trace ctl)"
  by (simp add: deleteContainer_def Let_def split: option.splits)

lemma applyCall_other_key:
  "k \<noteq> buildKey (callPod x) (callContainer x) \<Longrightarrow>
     tailers (applyCall ctl x) k = tailers ctl k
     \<and> filter (isStopOf k) (trace (applyCall ctl x)) = filter (isStopOf k) (trace ctl)"
  by (cases x)
     (simp_all add: addContainer_other_key deleteContainer_other_key addContainer_stops
        deleteContainer_stops)

lemma applyCalls_other_key:
  "\<forall>x \<in> set xs. k \<noteq> buildKey (callPod x) (callContainer x) \<Longrightarrow>
     tailers (applyCalls ctl xs) k = tailers ctl k
     \<and> filter (isStopOf k) (trace (applyCalls ctl xs)) = filter (isStopOf k) (trace ctl)"
  by (induction xs arbitrary: ctl) (simp_all add: applyCall_other_key)

lemma updateCalls_targets:
  "x \<in> set (updateCalls ctl pod statuses) \<Longrightarrow>
     callPod x = pod \<and> callContainer x \<in> set (Containers (Spec pod))"
  by (induction statuses)
     (auto simp: updateCalls_Nil updateCalls_Cons split: option.splits if_splits
        dest: findContainer_Some)

lemma deleteCalls_targets:
  "x \<in> set (deleteCalls pod) \<Longrightarrow>
     callPod x = pod \<and> callContainer x \<in> set (Containers (Spec pod))"
  by (auto simp: deleteCalls_def)

lemma updateCalls_skip:
  "\<forall>s \<in> set statuses. status_Name s \<notin> container_Name ` set (Containers (Spec pod)) \<Longrightarrow>
     updateCalls ctl pod statuses = []"
  by (induction statuses) (simp_all add: updateCalls_Nil updateCalls_Cons findContainer_None [symmetric])

text \<open>
  Claim C6. \<^verbatim>\<open>onUpdate\<close> makes one call for each status entry whose name is that of a
  regular container of the pod, for the first regular container of that name, and none
  for the other entries; \<^verbatim>\<open>onDelete\<close> calls \<^verbatim>\<open>deleteContainer\<close> for the regular containers
  and nothing else. So the session of a container whose name is not that of a regular
  container of the pod, such as an init container, is neither removed from the registry
  nor stopped by either handler.
\<close>

theorem onUpdate_onDelete_regular_only:
  "onUpdate ctl pod = applyCalls ctl (updateCalls ctl pod (allContainerStatusesForPod pod))
   \<and> onDelete ctl pod = applyCalls ctl (deleteCalls pod)
   \<and> ((\<forall>s \<in> set (allContainerStatusesForPod pod).
          status_Name s \<notin> container_Name ` set (Containers (Spec pod)))
        \<longrightarrow> onUpdate ctl pod = ctl)
   \<and> (container_Name ic \<notin> container_Name ` set (Containers (Spec pod)) \<longrightarrow>
        tailers (onUpdate ctl pod) (buildKey pod ic) = tailers ctl (buildKey pod ic)
        \<and> tailers (onDelete ctl pod) (buildKey pod ic) = tailers ctl (buildKey pod ic)
        \<and> filter (isStopOf (buildKey pod ic)) (trace (onUpdate ctl pod))
            = filter (isStopOf (buildKey pod ic)) (trace ctl)
        \<and> filter (isStopOf (buildKey pod ic)) (trace (onDelete ctl pod))
            = filter (isStopOf (buildKey pod ic)) (trace ctl))"
proof -
  have upd: "onUpdate ctl pod = applyCalls ctl (updateCalls ctl pod (allContainerStatusesForPod pod))"
    by (simp add: onUpdate_def updateLoop_calls)
  have del: "onDelete ctl pod = applyCalls ctl (deleteCalls pod)"
    by (simp add: onDelete_def deleteLoop_calls deleteCalls_def)
  have skip: "(\<forall>s \<in> set (allContainerStatusesForPod pod).
          status_Name s \<notin> container_Name ` set (Containers (Spec pod)))
        \<longrightarrow> onUpdate ctl pod = ctl"
    by (simp add: upd updateCalls_skip)
  have untouched: "tailers (onUpdate ctl pod) (buildKey pod ic) = tailers ctl (buildKey pod ic)
        \<and> tailers (onDelete ctl pod) (buildKey pod ic) = tailers ctl (buildKey pod ic)
        \<and> filter (isStopOf (buildKey pod ic)) (trace (onUpdate ctl pod))
            = filter (isStopOf (buildKey pod ic)) (trace ctl)
        \<and> filter (isStopOf (buildKey pod ic)) (trace (onDelete ctl pod))
            = filter (isStopOf (buildKey pod ic)) (trace ctl)"
    if other: "container_Name ic \<notin> container_Name ` set (Containers (Spec pod))"
  proof -
    have u: "\<forall>x \<in> set (updateCalls ctl pod (allContainerStatusesForPod pod)).
               buildKey pod ic \<noteq> buildKey (callPod x) (callContainer x)"
      using other updateCalls_targets [of _ ctl pod] by (auto simp: buildKey_same_pod)
    have d: "\<forall>x \<in> set (deleteCalls pod).
               buildKey pod ic \<noteq> buildKey (callPod x) (callContainer x)"
      using other deleteCalls_targets [of _ pod] by (auto simp: buildKey_same_pod)
    show ?thesis
      using applyCalls_other_key [OF u, of ctl] applyCalls_other_key [OF d, of ctl]
      by (simp add: upd del)
  qed
  show ?thesis using upd del skip untouched by blast
qed


lemmas run_defs = p1_def c1_def c2_def initA_def opts1_def ctlC1_def ctlAll_def ctlVeto_def
  NewController_def runningAt_def terminatedState_def waitingState_def PodRunning_def
  PodPending_def zeroContainerStatus_def allContainerStatusesForPod_def buildKey_def
  Second_def shouldIncludeContainer_def addContainer_def deleteContainer_def
  getStartTimestamp_def Let_def podContainers_def includedContainers_def

theorem onAdd_onInitialAdd_calls_witness:
  "includedContainers ctlC1 p1 = [c1]
   \<and> onAdd ctlC1 p1 = addContainer ctlC1 p1 c1 False
   \<and> onInitialAdd ctlC1 p1 = (True, addContainer ctlC1 p1 c1 True)"
  using onAdd_onInitialAdd_calls [of ctlC1 p1]
  by (simp add: includedContainers_def podContainers_def shouldIncludeContainer_def
      p1_def c1_def c2_def initA_def opts1_def ctlC1_def NewController_def runningAt_def
      terminatedState_def waitingState_def PodRunning_def PodPending_def
      zeroContainerStatus_def allContainerStatusesForPod_def)

lemma ctlAll_initial:
  "tailers (snd (onInitialAdd ctlAll p1)) =
     [''ns1/p1/init-a'' \<mapsto> \<lparr>tailer_Pod = p1, tailer_Container = initA, FromTimestamp = Some 995000000000\<rparr>,
      ''ns1/p1/c1'' \<mapsto> \<lparr>tailer_Pod = p1, tailer_Container = c1, FromTimestamp = Some 995000000000\<rparr>,
      ''ns1/p1/c2'' \<mapsto> \<lparr>tailer_Pod = p1, tailer_Container = c2, FromTimestamp = Some 995000000000\<rparr>]"
  by (simp add: onInitialAdd_def run_defs)

theorem onUpdate_onDelete_regular_only_witness:
  "container_Name initA \<notin> container_Name ` set (Containers (Spec p1))
   \<and> tailers (snd (onInitialAdd ctlAll p1)) (buildKey p1 initA) \<noteq> None
   \<and> tailers (onDelete (snd (onInitialAdd ctlAll p1)) p1) (buildKey p1 initA)
       = tailers (snd (onInitialAdd ctlAll p1)) (buildKey p1 initA)
   \<and> tailers (onUpdate (snd (onInitialAdd ctlAll p1)) p1Succeeded) (buildKey p1Succeeded initA)
       = tailers (snd (onInitialAdd ctlAll p1)) (buildKey p1 initA)
   \<and> onUpdate ctlC1 p1InitOnly = ctlC1"
proof -
  let ?s = "snd (onInitialAdd ctlAll p1)"
  have other: "container_Name initA \<notin> container_Name ` set (Containers (Spec p1))"
    by (simp add: p1_def c1_def c2_def initA_def)
  have other': "container_Name initA \<notin> container_Name ` set (Containers (Spec p1Succeeded))"
    by (simp add: p1Succeeded_def p1_def c1_def c2_def initA_def)
  have key: "buildKey p1Succeeded initA = buildKey p1 initA"
    by (simp add: p1Succeeded_def buildKey_def)
  have nomatch: "\<forall>s \<in> set (allContainerStatusesForPod p1InitOnly).
           status_Name s \<notin> container_Name ` set (Containers (Spec p1InitOnly))"
    by (simp add: p1InitOnly_def p1_def c1_def c2_def allContainerStatusesForPod_def
        zeroContainerStatus_def)
  have k: "buildKey p1 initA = ''ns1/p1/init-a''"
    by (simp add: buildKey_def p1_def initA_def)
  have present: "tailers ?s (buildKey p1 initA) \<noteq> None"
    by (simp add: ctlAll_initial k)
  have del: "tailers (onDelete ?s p1) (buildKey p1 initA) = tailers ?s (buildKey p1 initA)"
    using onUpdate_onDelete_regular_only [of ?s p1 initA] other by blast
  have "tailers (onUpdate ?s p1Succeeded) (buildKey p1Succeeded initA)
               = tailers ?s (buildKey p1Succeeded initA)"
    using onUpdate_onDelete_regular_only [of ?s p1Succeeded initA] other' by blast
  then have upd: "tailers (onUpdate ?s p1Succeeded) (buildKey p1Succeeded initA)
               = tailers ?s (buildKey p1 initA)"
    by (simp only: key)
  have skip: "onUpdate ctlC1 p1InitOnly = ctlC1"
    using onUpdate_onDelete_regular_only [of ctlC1 p1InitOnly initA] nomatch by blast
  show ?thesis using other present del upd skip by blast
qed

lemma sessionsAfter_append:
  "sessionsAfter A (xs @ ys) =
     (case sessionsAfter A xs of None \<Rightarrow> None | Some B \<Rightarrow> sessionsAfter B ys)"
  by (induction A xs rule: sessionsAfter.induct) simp_all

lemma addContainer_consistent:
  "consistent ctl \<Longrightarrow> consistent (addContainer ctl pod c i)"
  by (auto simp: consistent_def addContainer_def Let_def sessionsAfter_append
      split: prod.splits)

lemma deleteContainer_consistent:
  "consistent ctl \<Longrightarrow> consistent (deleteContainer ctl pod c)"
  by (auto simp: consistent_def deleteContainer_def Let_def sessionsAfter_append
      split: option.splits)

lemma applyCalls_consistent:
  "consistent ctl \<Longrightarrow> consistent (applyCalls ctl xs)"
proof (induction xs arbitrary: ctl)
  case Nil
  then show ?case by simp
next
  case (Cons x xs)
  have "consistent (applyCall ctl x)"
    using Cons.prems by (cases x) (simp_all add: addContainer_consistent deleteContainer_consistent)
  then show ?case by (simp add: Cons.IH)
qed

lemma addContainer_present:
  "tailers ctl (buildKey pod c) \<noteq> None \<Longrightarrow> addContainer ctl pod c i = ctl"
  by (simp add: addContainer_def Let_def)

lemma addContainer_keeps:
  "tailers ctl k \<noteq> None \<Longrightarrow> tailers (addContainer ctl pod c i) k = tailers ctl k"
  by (cases "k = buildKey pod c") (simp_all add: addContainer_present addContainer_other_key)

text \<open>
  Claim C3. \<^verbatim>\<open>addContainer\<close> on a registered key returns the controller as it was: no
  call of \<^verbatim>\<open>OnEnter\<close>, no timestamp, no change of the registry. No call of
  \<^verbatim>\<open>addContainer\<close> changes the entry of a registered key. And through any sequence of
  calls of \<^verbatim>\<open>addContainer\<close> and \<^verbatim>\<open>deleteContainer\<close> on a new controller, the trace reads
  without fault: no tailer is launched and \<^verbatim>\<open>OnEnter\<close> is not invoked for a key whose
  session is active, and the keys with an active session are those of the registry.
\<close>

theorem addContainer_idempotent:
  "(tailers ctl (buildKey pod container) \<noteq> None \<longrightarrow>
      addContainer ctl pod container initialAdd = ctl)
   \<and> (\<forall>k. tailers ctl k \<noteq> None \<longrightarrow>
         tailers (addContainer ctl pod container initialAdd) k = tailers ctl k)
   \<and> (sessionsAfter {} (trace ctl) = Some (dom (tailers ctl)) \<longrightarrow>
        sessionsAfter {} (trace (applyCalls ctl calls))
          = Some (dom (tailers (applyCalls ctl calls))))
   \<and> sessionsAfter {} (trace (applyCalls (NewController cl opts cbs clock) calls))
        = Some (dom (tailers (applyCalls (NewController cl opts cbs clock) calls)))"
proof -
  have fresh: "consistent (NewController cl opts cbs clock)"
    by (simp add: consistent_def NewController_def)
  show ?thesis
    using applyCalls_consistent [of ctl calls] applyCalls_consistent [OF fresh, of calls]
    by (simp add: addContainer_present addContainer_keeps consistent_def)
qed

theorem addContainer_idempotent_witness:
  "tailers (addContainer ctlC1 p1 c1 True) (buildKey p1 c1) \<noteq> None
   \<and> addContainer (addContainer ctlC1 p1 c1 True) p1 c1 False = addContainer ctlC1 p1 c1 True
   \<and> sessionsAfter {} (trace ctlC1) = Some (dom (tailers ctlC1))
   \<and> sessionsAfter {}
        (trace (applyCalls ctlC1 [AddContainer p1 c1 True, AddContainer p1 c1 False,
                                 DeleteContainer p1 c1, AddContainer p1 c1 False]))
       = Some {''ns1/p1/c1''}"
proof -
  have present: "tailers (addContainer ctlC1 p1 c1 True) (buildKey p1 c1) \<noteq> None"
    by (simp add: run_defs)
  have again: "addContainer (addContainer ctlC1 p1 c1 True) p1 c1 False
                 = addContainer ctlC1 p1 c1 True"
    using addContainer_idempotent [of "addContainer ctlC1 p1 c1 True" p1 c1 False] present
    by blast
  have fresh: "sessionsAfter {} (trace ctlC1) = Some (dom (tailers ctlC1))"
    by (simp add: ctlC1_def NewController_def)
  have run: "sessionsAfter {}
        (trace (applyCalls ctlC1 [AddContainer p1 c1 True, AddContainer p1 c1 False,
                                 DeleteContainer p1 c1, AddContainer p1 c1 False]))
       = Some {''ns1/p1/c1''}"
    by (simp add: run_defs runningEntries_def)
  show ?thesis using present again fresh run by blast
qed

section \<open>The run loop, its trace and the registry\<close>

lemma extends_refl: "extends ctl ctl []"
  by (simp add: extends_def)

lemma extends_trans: "extends a b es \<Longrightarrow> extends b c fs \<Longrightarrow> extends a c (es @ fs)"
  by (simp add: extends_def)

lemma addContainer_extends:
  "\<exists>es. extends ctl (addContainer ctl pod c i) es \<and> list_all sessionEvent es"
  by (auto simp: addContainer_def Let_def extends_def sessionEvent_def split: prod.splits)

lemma adds_extends:
  "\<exists>es. extends ctl (applyCalls ctl (map (\<lambda>c. AddContainer pod c i) cs)) es
        \<and> list_all sessionEvent es \<and> (cs = [] \<longrightarrow> es = [])"
proof (induction cs arbitrary: ctl)
  case Nil
  show ?case by (simp add: extends_refl)
next
  case (Cons c cs)
  obtain es1 where 1: "extends ctl (addContainer ctl pod c i) es1" "list_all sessionEvent es1"
    using addContainer_extends by blast
  obtain es2 where 2:
    "extends (addContainer ctl pod c i)
       (applyCalls (addContainer ctl pod c i) (map (\<lambda>c. AddContainer pod c i) cs)) es2"
    "list_all sessionEvent es2"
    using Cons.IH by blast
  have "extends ctl (applyCalls ctl (map (\<lambda>c. AddContainer pod c i) (c # cs))) (es1 @ es2)"
    using extends_trans [OF 1(1) 2(1)] by simp
  moreover have "list_all sessionEvent (es1 @ es2)"
    using 1(2) 2(2) by simp
  ultimately show ?case by blast
qed

lemma noneOfNamespace_trace [simp]:
  "noneOfNamespace ns (ctl\<lparr>trace := t\<rparr>) = noneOfNamespace ns ctl"
  by (simp add: noneOfNamespace_def)

lemma noneOfNamespace_addContainer:
  "noneOfNamespace ns ctl \<Longrightarrow> Namespace pod \<noteq> ns \<Longrightarrow> noneOfNamespace ns (addContainer ctl pod c i)"
  by (auto simp: noneOfNamespace_def addContainer_def Let_def split: prod.splits if_splits)

lemma noneOfNamespace_adds:
  "noneOfNamespace ns ctl \<Longrightarrow> Namespace pod \<noteq> ns \<Longrightarrow>
     noneOfNamespace ns (applyCalls ctl (map (\<lambda>c. AddContainer pod c i) cs))"
  by (induction cs arbitrary: ctl) (simp_all add: noneOfNamespace_addContainer)

lemma shouldIncludeContainer_extends:
  "extends ctl ctl2 es \<Longrightarrow> shouldIncludeContainer ctl2 pod = shouldIncludeContainer ctl pod"
  by (rule ext) (simp add: shouldIncludeContainer_def extends_def)

lemma discovered_extends:
  "extends ctl ctl2 es \<Longrightarrow> discovered ctl2 pods = discovered ctl pods"
  by (simp add: discovered_def shouldIncludeContainer_extends)

lemma discovered_Nil [simp]: "discovered ctl [] = False"
  by (simp add: discovered_def)

lemma discovered_Cons:
  "discovered ctl (pod # pods) = (includedContainers ctl pod \<noteq> [] \<or> discovered ctl pods)"
  by (auto simp: discovered_def includedContainers_def filter_empty_conv list_ex_iff)

lemma discovered_append [simp]:
  "discovered ctl (xs @ ys) = (discovered ctl xs \<or> discovered ctl ys)"
  by (simp add: discovered_def)


lemma onInitialAdd_post:
  assumes "onInitialAdd ctl pod = (added, ctl2)"
  shows "added = (includedContainers ctl pod \<noteq> [])"
    and "\<exists>es. extends ctl ctl2 es \<and> list_all sessionEvent es \<and> (\<not> added \<longrightarrow> es = [])"
    and "noneOfNamespace ns ctl \<Longrightarrow> Namespace pod \<noteq> ns \<Longrightarrow> noneOfNamespace ns ctl2"
proof -
  have eq: "added = (includedContainers ctl pod \<noteq> [])"
    "ctl2 = applyCalls ctl (map (\<lambda>c. AddContainer pod c True) (includedContainers ctl pod))"
    using assms by (simp_all add: onInitialAdd_calls addCalls_def)
  show "added = (includedContainers ctl pod \<noteq> [])" by (rule eq(1))
  show "\<exists>es. extends ctl ctl2 es \<and> list_all sessionEvent es \<and> (\<not> added \<longrightarrow> es = [])"
    using adds_extends [of ctl pod True "includedContainers ctl pod"] eq by blast
  show "noneOfNamespace ns ctl \<Longrightarrow> Namespace pod \<noteq> ns \<Longrightarrow> noneOfNamespace ns ctl2"
    unfolding eq(2) by (rule noneOfNamespace_adds)
qed

lemma podListLoop_post:
  "podListLoop ctl pods d = (d2, ctl2) \<Longrightarrow>
     d2 = (d \<or> discovered ctl pods)
     \<and> (\<exists>es. extends ctl ctl2 es \<and> list_all sessionEvent es
              \<and> (es \<noteq> [] \<longrightarrow> discovered ctl pods))
     \<and> (\<forall>ns. noneOfNamespace ns ctl \<and> (\<forall>pod \<in> set pods. Namespace pod \<noteq> ns)
            \<longrightarrow> noneOfNamespace ns ctl2)"
proof (induction pods arbitrary: ctl d)
  case Nil
  then show ?case by (auto simp: extends_refl)
next
  case (Cons pod pods)
  obtain added ctl3 where step: "onInitialAdd ctl pod = (added, ctl3)"
    by (cases "onInitialAdd ctl pod")
  have rest: "podListLoop ctl3 pods (if added then True else d) = (d2, ctl2)"
    using Cons.prems step by simp
  note ih = Cons.IH [OF rest]
  obtain es1 where 1: "extends ctl ctl3 es1" "list_all sessionEvent es1" "\<not> added \<longrightarrow> es1 = []"
    using onInitialAdd_post(2) [OF step] by blast
  obtain es2 where 2: "extends ctl3 ctl2 es2" "list_all sessionEvent es2"
    "es2 \<noteq> [] \<longrightarrow> discovered ctl3 pods"
    using ih by blast
  have added: "added = (includedContainers ctl pod \<noteq> [])"
    by (rule onInitialAdd_post(1) [OF step])
  have disc: "discovered ctl3 pods = discovered ctl pods"
    by (rule discovered_extends [OF 1(1)])
  have a: "d2 = (d \<or> discovered ctl (pod # pods))"
    using ih added disc by (auto simp: discovered_Cons)
  have b: "extends ctl ctl2 (es1 @ es2) \<and> list_all sessionEvent (es1 @ es2)
           \<and> (es1 @ es2 \<noteq> [] \<longrightarrow> discovered ctl (pod # pods))"
    using extends_trans [OF 1(1) 2(1)] 1 2 added disc by (auto simp: discovered_Cons)
  have c: "\<forall>ns. noneOfNamespace ns ctl \<and> (\<forall>pod \<in> set (pod # pods). Namespace pod \<noteq> ns)
            \<longrightarrow> noneOfNamespace ns ctl2"
    using ih onInitialAdd_post(3) [OF step] by auto
  show ?case using a b c by blast
qed

lemma itemLoop_pods: "itemLoop ctl items d = podListLoop ctl (itemPods items) d"
  by (induction ctl items d rule: itemLoop.induct) (simp_all split: prod.splits)

lemma sessionEvents_listedPods: "list_all sessionEvent es \<Longrightarrow> listedPods es = []"
  by (induction es rule: listedPods.induct) (simp_all add: sessionEvent_def)

lemma sessionEvents_listedNamespaces: "list_all sessionEvent es \<Longrightarrow> listedNamespaces es = []"
  by (induction es rule: listedNamespaces.induct) (simp_all add: sessionEvent_def)

lemma sessionEvents_others:
  "list_all sessionEvent es \<Longrightarrow> NothingDiscovered \<notin> set es \<and> InformerRun ns \<notin> set es"
  by (induction es) (auto simp: sessionEvent_def)

lemma listedPods_append: "listedPods (xs @ ys) = listedPods xs @ listedPods ys"
  by (induction xs rule: listedPods.induct) simp_all

lemma listedNamespaces_append:
  "listedNamespaces (xs @ ys) = listedNamespaces xs @ listedNamespaces ys"
  by (induction xs rule: listedNamespaces.induct) simp_all

lemma list_ex_nonempty: "list_ex P es \<Longrightarrow> es \<noteq> []"
  by auto

text \<open>One round of the namespace loop whose listing fails or is of an unexpected type.\<close>

lemma loopPost_stop:
  assumes "podsOf listed = []"
  shows "loopPost ctl (ns # rest) d (Inl e) (ctl\<lparr>trace := trace ctl @ [ListCall ns listed]\<rparr>)
           [ListCall ns listed]"
  using assms by (simp add: loopPost_def extends_def)

lemma loopPost_round:
  assumes pl: "podListLoop (ctl\<lparr>trace := trace ctl @ [ListCall ns listed]\<rparr>) (podsOf listed) d
                 = (d2, ctl2)"
    and post: "loopPost (ctl2\<lparr>trace := trace ctl2 @ [InformerRun ns]\<rparr>) rest d2 r ctl3 es3"
  shows "\<exists>es. loopPost ctl (ns # rest) d r ctl3 es"
proof -
  let ?c1 = "ctl\<lparr>trace := trace ctl @ [ListCall ns listed]\<rparr>"
  let ?c2 = "ctl2\<lparr>trace := trace ctl2 @ [InformerRun ns]\<rparr>"
  note plp = podListLoop_post [OF pl]
  obtain es2 where 2: "extends ?c1 ctl2 es2" "list_all sessionEvent es2"
    "es2 \<noteq> [] \<longrightarrow> discovered ?c1 (podsOf listed)"
    using plp by blast
  have e01: "extends ctl ?c1 [ListCall ns listed]"
    by (simp add: extends_def)
  have e23: "extends ctl2 ?c2 [InformerRun ns]"
    by (simp add: extends_def)
  have e3: "extends ?c2 ctl3 es3"
    using post by (simp add: loopPost_def)
  define es where "es = [ListCall ns listed] @ es2 @ [InformerRun ns] @ es3"
  have extd: "extends ctl ctl3 es"
    unfolding es_def
    using extends_trans [OF e01 extends_trans [OF 2(1) extends_trans [OF e23 e3]]] .
  have ext02: "extends ctl ?c2 ([ListCall ns listed] @ es2 @ [InformerRun ns])"
    using extends_trans [OF e01 extends_trans [OF 2(1) e23]] .
  have disc1: "discovered ?c1 = discovered ctl"
    by (rule ext) (rule discovered_extends [OF e01])
  have disc2: "discovered ?c2 = discovered ctl"
    by (rule ext) (rule discovered_extends [OF ext02])
  have lp: "listedPods es = podsOf listed @ listedPods es3"
    by (simp add: es_def listedPods_append sessionEvents_listedPods [OF 2(2)])
  have ln: "listedNamespaces es = ns # listedNamespaces es3"
    by (simp add: es_def listedNamespaces_append sessionEvents_listedNamespaces [OF 2(2)])
  have nd: "NothingDiscovered \<notin> set es"
    using post sessionEvents_others [OF 2(2)] by (simp add: loopPost_def es_def)
  have started: "list_ex isEnter es \<or> list_ex isTailerRun es \<longrightarrow> discovered ctl (listedPods es)"
  proof
    assume "list_ex isEnter es \<or> list_ex isTailerRun es"
    then consider "es2 \<noteq> []" | "list_ex isEnter es3 \<or> list_ex isTailerRun es3"
      by (auto simp: es_def dest: list_ex_nonempty)
    then show "discovered ctl (listedPods es)"
    proof cases
      case 1
      then show ?thesis using 2(3) by (simp add: lp disc1)
    next
      case 2
      then have "discovered ?c2 (listedPods es3)"
        using post by (simp add: loopPost_def)
      then show ?thesis by (simp add: lp disc2)
    qed
  qed
  have result: "\<forall>d1. r = Inr d1 \<longrightarrow>
      d1 = (d \<or> discovered ctl (listedPods es)) \<and> listedNamespaces es = ns # rest"
    using post plp by (auto simp: loopPost_def lp ln disc1 disc2)
  have informers: "\<forall>n. InformerRun n \<in> set es \<longrightarrow> n \<in> set (ns # rest)"
    using post sessionEvents_others [OF 2(2)] by (auto simp: loopPost_def es_def)
  have iso: "\<forall>n. noneOfNamespace n ctl \<and> (\<forall>pod \<in> set (listedPods es). Namespace pod \<noteq> n)
            \<longrightarrow> noneOfNamespace n ctl3"
  proof (intro allI impI)
    fix n
    assume h: "noneOfNamespace n ctl \<and> (\<forall>pod \<in> set (listedPods es). Namespace pod \<noteq> n)"
    then have "noneOfNamespace n ctl2"
      using plp by (simp add: lp)
    then show "noneOfNamespace n ctl3"
      using post h by (simp add: loopPost_def lp)
  qed
  have "loopPost ctl (ns # rest) d r ctl3 es"
    unfolding loopPost_def using extd nd started result informers iso by blast
  then show ?thesis by blast
qed

lemma namespaceLoop_post:
  "namespaceLoop ctl nss d = (r, ctl3) \<Longrightarrow> \<exists>es. loopPost ctl nss d r ctl3 es"
proof (induction nss arbitrary: ctl d)
  case Nil
  then have "loopPost ctl [] d r ctl3 []"
    by (auto simp: loopPost_def extends_refl)
  then show ?case by blast
next
  case (Cons ns rest)
  let ?listed = "client ctl (trace ctl) ns"
  let ?c1 = "ctl\<lparr>trace := trace ctl @ [ListCall ns ?listed]\<rparr>"
  show ?case
  proof (cases "(\<exists>items. ?listed = Inr (PodList items)) \<or> (\<exists>items. ?listed = Inr (InternalList items))")
    case False
    then obtain e where "r = Inl e" "ctl3 = ?c1" "podsOf ?listed = []"
      using Cons.prems by (auto simp: Let_def split: sum.splits ListObject.splits)
    then show ?thesis using loopPost_stop [of ?listed ctl ns rest d e] by blast
  next
    case True
    obtain d2 ctl2 where pl: "podListLoop ?c1 (podsOf ?listed) d = (d2, ctl2)"
      by (cases "podListLoop ?c1 (podsOf ?listed) d")
    have "namespaceLoop (ctl2\<lparr>trace := trace ctl2 @ [InformerRun ns]\<rparr>) rest d2 = (r, ctl3)"
      using True Cons.prems pl by (auto simp: Let_def itemLoop_pods)
    from Cons.IH [OF this] obtain es3
      where "loopPost (ctl2\<lparr>trace := trace ctl2 @ [InformerRun ns]\<rparr>) rest d2 r ctl3 es3"
      by blast
    from loopPost_round [OF pl this] show ?thesis .
  qed
qed


lemma listedPods_ND: "listedPods (es @ [NothingDiscovered]) = listedPods es"
  by (simp add: listedPods_append)

lemma listedNamespaces_ND: "listedNamespaces (es @ [NothingDiscovered]) = listedNamespaces es"
  by (simp add: listedNamespaces_append)

lemma count_list_absent: "x \<notin> set es \<Longrightarrow> count_list es x = 0"
  by (induction es) auto

lemma loopPost_result:
  "loopPost ctl nss d (Inr d1) ctl3 es \<Longrightarrow>
     d1 = (d \<or> discovered ctl (listedPods es)) \<and> listedNamespaces es = nss"
  by (simp add: loopPost_def)

lemma loopPost_quiet:
  "loopPost ctl nss d r ctl3 es \<Longrightarrow>
     NothingDiscovered \<notin> set es
     \<and> (\<not> discovered ctl (listedPods es) \<longrightarrow> \<not> list_ex isEnter es \<and> \<not> list_ex isTailerRun es)"
  by (auto simp: loopPost_def)

lemma Run_cases:
  obtains (failed) e ctl3 es
    where "Run ctl = (Inl e, ctl3)" "runEvents ctl = es"
      "loopPost ctl (Namespaces (options ctl)) False (Inl e) ctl3 es"
  | (found) ctl3 es
    where "Run ctl = (Inr (), ctl3)" "runEvents ctl = es"
      "loopPost ctl (Namespaces (options ctl)) False (Inr True) ctl3 es"
  | (silent) ctl3 es
    where "Run ctl = (Inr (), ctl3\<lparr>trace := trace ctl3 @ [NothingDiscovered]\<rparr>)"
      "runEvents ctl = es @ [NothingDiscovered]"
      "loopPost ctl (Namespaces (options ctl)) False (Inr False) ctl3 es"
proof -
  obtain r ctl3 where loop: "namespaceLoop ctl (Namespaces (options ctl)) False = (r, ctl3)"
    by (cases "namespaceLoop ctl (Namespaces (options ctl)) False")
  obtain es where post: "loopPost ctl (Namespaces (options ctl)) False r ctl3 es"
    using namespaceLoop_post [OF loop] by blast
  have tr: "trace ctl3 = trace ctl @ es"
    using post by (simp add: loopPost_def extends_def)
  show thesis
  proof (cases r)
    case (Inl e)
    have 1: "Run ctl = (Inl e, ctl3)"
      using loop Inl by (simp add: Run_def)
    have 2: "runEvents ctl = es"
      by (simp add: runEvents_def 1 eventsSince_def tr)
    have 3: "loopPost ctl (Namespaces (options ctl)) False (Inl e) ctl3 es"
      using post Inl by simp
    show thesis by (rule failed [OF 1 2 3])
  next
    case (Inr d)
    show thesis
    proof (cases d)
      case True
      have 1: "Run ctl = (Inr (), ctl3)"
        using loop Inr True by (simp add: Run_def)
      have 2: "runEvents ctl = es"
        by (simp add: runEvents_def 1 eventsSince_def tr)
      have 3: "loopPost ctl (Namespaces (options ctl)) False (Inr True) ctl3 es"
        using post Inr True by simp
      show thesis by (rule found [OF 1 2 3])
    next
      case False
      have 1: "Run ctl = (Inr (), ctl3\<lparr>trace := trace ctl3 @ [NothingDiscovered]\<rparr>)"
        using loop Inr False by (simp add: Run_def)
      have 2: "runEvents ctl = es @ [NothingDiscovered]"
        by (simp add: runEvents_def 1 eventsSince_def tr)
      have 3: "loopPost ctl (Namespaces (options ctl)) False (Inr False) ctl3 es"
        using post Inr False by simp
      show thesis by (rule silent [OF 1 2 3])
    qed
  qed
qed

lemma isInitialEnter_isEnter: "list_ex isInitialEnter es \<Longrightarrow> list_ex isEnter es"
  by (induction es rule: listedPods.induct) auto

lemma startedInitially_isEnter: "startedInitially es \<Longrightarrow> list_ex isEnter es"
  by (induction es rule: startedInitially.induct) auto

lemma takeWhile_before: "x \<notin> set es \<Longrightarrow> takeWhile (\<lambda>e. e \<noteq> x) (es @ [x]) = es"
  by (induction es) auto

text \<open>
  Claim C5, as amended. \<^verbatim>\<open>discoveredAny\<close> records that a container passed the inclusion
  policy, not that a session was started for it. \<^verbatim>\<open>OnNothingDiscovered\<close> is invoked
  once for the whole run, after every configured namespace has been listed, if no
  container of any listed pod passed the inclusion policy during the initial-add pass; it
  is not invoked otherwise, nor when a listing fails or is of an unexpected type. If a
  session was started by the initial-add pass, the callback is not invoked; if the callback
  is invoked, every configured namespace was listed before it, and the initial-add pass
  has neither invoked \<^verbatim>\<open>OnEnter\<close> nor started a session. The theorem is about the
  thread of \<^verbatim>\<open>Run\<close>; the last section shows the same with the calls of the handlers of
  live events between its steps.
\<close>

theorem nothingDiscovered_iff_discovered:
  "(fst (Run ctl) = Inr () \<longrightarrow>
      listedNamespaces (runEvents ctl) = Namespaces (options ctl)
      \<and> count_list (runEvents ctl) NothingDiscovered
          = (if discovered ctl (listedPods (runEvents ctl)) then 0 else 1))
   \<and> (fst (Run ctl) \<noteq> Inr () \<longrightarrow> NothingDiscovered \<notin> set (runEvents ctl))
   \<and> (startedInitially (runEvents ctl) \<longrightarrow> NothingDiscovered \<notin> set (runEvents ctl))
   \<and> (NothingDiscovered \<in> set (runEvents ctl) \<longrightarrow>
        listedNamespaces (takeWhile (\<lambda>e. e \<noteq> NothingDiscovered) (runEvents ctl))
          = Namespaces (options ctl)
        \<and> \<not> list_ex isInitialEnter (runEvents ctl)
        \<and> \<not> startedInitially (runEvents ctl))"
proof (rule Run_cases [of ctl])
  fix e ctl3 es
  assume a: "Run ctl = (Inl e, ctl3)" "runEvents ctl = es"
    "loopPost ctl (Namespaces (options ctl)) False (Inl e) ctl3 es"
  have "NothingDiscovered \<notin> set es"
    using loopPost_quiet [OF a(3)] by simp
  then show ?thesis by (simp add: a(1,2))
next
  fix ctl3 es
  assume a: "Run ctl = (Inr (), ctl3)" "runEvents ctl = es"
    "loopPost ctl (Namespaces (options ctl)) False (Inr True) ctl3 es"
  have "discovered ctl (listedPods es)" "listedNamespaces es = Namespaces (options ctl)"
    using loopPost_result [OF a(3)] by simp_all
  moreover have "NothingDiscovered \<notin> set es"
    using loopPost_quiet [OF a(3)] by simp
  ultimately show ?thesis by (simp add: a(1,2) count_list_absent)
next
  fix ctl3 es
  assume a: "Run ctl = (Inr (), ctl3\<lparr>trace := trace ctl3 @ [NothingDiscovered]\<rparr>)"
    "runEvents ctl = es @ [NothingDiscovered]"
    "loopPost ctl (Namespaces (options ctl)) False (Inr False) ctl3 es"
  have none: "\<not> discovered ctl (listedPods es)"
    "listedNamespaces es = Namespaces (options ctl)"
    using loopPost_result [OF a(3)] by simp_all
  have quiet: "NothingDiscovered \<notin> set es" "\<not> list_ex isEnter es"
    using loopPost_quiet [OF a(3)] none(1) by simp_all
  have "\<not> list_ex isEnter (es @ [NothingDiscovered])"
    using quiet(2) by simp
  then have initial: "\<not> list_ex isInitialEnter (es @ [NothingDiscovered])"
    "\<not> startedInitially (es @ [NothingDiscovered])"
    using isInitialEnter_isEnter startedInitially_isEnter by blast+
  have before: "takeWhile (\<lambda>e. e \<noteq> NothingDiscovered) (es @ [NothingDiscovered]) = es"
    by (rule takeWhile_before [OF quiet(1)])
  have run: "fst (Run ctl) = Inr ()"
    by (simp add: a(1))
  have listed: "listedNamespaces (es @ [NothingDiscovered]) = Namespaces (options ctl)"
    by (simp add: listedNamespaces_ND none(2))
  have counted: "count_list (es @ [NothingDiscovered]) NothingDiscovered = 1"
    by (simp add: count_list_absent [OF quiet(1)])
  have nothing_found: "\<not> discovered ctl (listedPods (es @ [NothingDiscovered]))"
    by (simp add: listedPods_ND none(1))
  show ?thesis
    unfolding a(2) before
    using run listed counted nothing_found initial none(2) by simp
qed




lemmas eval_defs = Run_def onInitialAdd_def Let_def shouldIncludeContainer_def addContainer_def
  getStartTimestamp_def allContainerStatusesForPod_def zeroContainerStatus_def buildKey_def
  PodRunning_def PodPending_def Second_def NewController_def ctlC1_def opts1_def
  p1_def c1_def c2_def initA_def runningAt_def terminatedState_def waitingState_def

lemma Run_ctlNone:
  "Run ctlNone =
     (Inr (), ctlNone\<lparr>trace := [ListCall ''ns1'' (Inr (PodList [p1Succeeded])),
                                 InformerRun ''ns1'', NothingDiscovered]\<rparr>)"
  by (simp add: ctlNone_def p1Succeeded_def eval_defs)

lemma Run_ctlC1:
  "Run ctlC1 =
     (Inr (),
      ctlC1\<lparr>tailers := [''ns1/p1/c1'' \<mapsto>
                  \<lparr>tailer_Pod = p1, tailer_Container = c1, FromTimestamp = Some 995000000000\<rparr>],
            trace := [ListCall ''ns1'' (Inr (PodList [p1])), Enter p1 c1 True True,
                      TailerRun ''ns1/p1/c1''
                        \<lparr>tailer_Pod = p1, tailer_Container = c1,
                          FromTimestamp = Some 995000000000\<rparr>,
                      InformerRun ''ns1'']\<rparr>)"
  by (simp add: eval_defs)

lemma Run_ctlVeto:
  "Run ctlVeto =
     (Inr (),
      ctlVeto\<lparr>trace := [ListCall ''ns1'' (Inr (PodList [p1])), Enter p1 c1 True False,
                        InformerRun ''ns1'']\<rparr>)"
  by (simp add: ctlVeto_def eval_defs)



theorem nothingDiscovered_iff_discovered_witness:
  "fst (Run ctlNone) = Inr ()
   \<and> runEvents ctlNone = [ListCall ''ns1'' (Inr (PodList [p1Succeeded])), InformerRun ''ns1'',
                          NothingDiscovered]
   \<and> \<not> discovered ctlNone (listedPods (runEvents ctlNone))
   \<and> count_list (runEvents ctlNone) NothingDiscovered = 1
   \<and> \<not> list_ex isInitialEnter (runEvents ctlNone)
   \<and> fst (Run ctlC1) = Inr ()
   \<and> startedInitially (runEvents ctlC1)
   \<and> discovered ctlC1 (listedPods (runEvents ctlC1))
   \<and> NothingDiscovered \<notin> set (runEvents ctlC1)"
proof -
  have n1: "fst (Run ctlNone) = Inr ()"
    by (simp add: Run_ctlNone)
  have n2: "runEvents ctlNone = [ListCall ''ns1'' (Inr (PodList [p1Succeeded])),
                                InformerRun ''ns1'', NothingDiscovered]"
    by (simp add: runEvents_def eventsSince_def Run_ctlNone)
       (simp add: ctlNone_def ctlC1_def NewController_def)
  have n3: "\<not> discovered ctlNone (listedPods (runEvents ctlNone))"
    by (simp add: n2 discovered_def podContainers_def shouldIncludeContainer_def
        p1Succeeded_def p1_def PodRunning_def PodPending_def)
  have n4: "count_list (runEvents ctlNone) NothingDiscovered = 1"
    using nothingDiscovered_iff_discovered [of ctlNone] n1 n3 by simp
  have "NothingDiscovered \<in> set (runEvents ctlNone)"
    by (simp add: n2)
  then have n5: "\<not> list_ex isInitialEnter (runEvents ctlNone)"
    using nothingDiscovered_iff_discovered [of ctlNone] by blast
  have c1: "fst (Run ctlC1) = Inr ()"
    by (simp add: Run_ctlC1)
  have c2: "startedInitially (runEvents ctlC1)"
    by (simp add: runEvents_def eventsSince_def Run_ctlC1)
       (simp add: ctlC1_def NewController_def)
  have c3: "NothingDiscovered \<notin> set (runEvents ctlC1)"
    using nothingDiscovered_iff_discovered [of ctlC1] c2 by blast
  have "count_list (runEvents ctlC1) NothingDiscovered
          = (if discovered ctlC1 (listedPods (runEvents ctlC1)) then 0 else 1)"
    using nothingDiscovered_iff_discovered [of ctlC1] c1 by blast
  then have c4: "discovered ctlC1 (listedPods (runEvents ctlC1))"
    using c3 by (simp add: count_list_absent split: if_splits)
  show ?thesis using n1 n2 n3 n4 n5 c1 c2 c3 c4 by blast
qed

text \<open>
  Claim C5, as stated, fails when the embedder vetoes the only container that passes
  the inclusion policy: no session is started during the initial pass, and
  \<^verbatim>\<open>OnNothingDiscovered\<close> is not invoked.
\<close>

theorem nothingDiscovered_veto_counterexample:
  "fst (Run ctlVeto) = Inr ()
   \<and> trace (snd (Run ctlVeto))
       = [ListCall ''ns1'' (Inr (PodList [p1])), Enter p1 c1 True False, InformerRun ''ns1'']
   \<and> tailers (snd (Run ctlVeto)) = Map.empty
   \<and> \<not> list_ex isTailerRun (trace (snd (Run ctlVeto)))
   \<and> NothingDiscovered \<notin> set (trace (snd (Run ctlVeto)))"
  by (simp add: Run_ctlVeto) (simp add: ctlVeto_def ctlC1_def NewController_def)



section \<open>The run with live events beside it\<close>

lemma initialAddLoopLive_Nil:
  "initialAddLoopLive ctl [] pod cs added =
     (fst (initialAddLoop ctl pod cs added), snd (initialAddLoop ctl pod cs added), [])"
  by (induction cs arbitrary: ctl added) simp_all

lemma onInitialAddLive_Nil:
  "onInitialAddLive ctl [] pod = (fst (onInitialAdd ctl pod), snd (onInitialAdd ctl pod), [])"
  by (simp add: onInitialAddLive_def onInitialAdd_def initialAddLoopLive_Nil split: prod.splits)

lemma podListLoopLive_Nil:
  "podListLoopLive ctl [] pods d = (fst (podListLoop ctl pods d), snd (podListLoop ctl pods d), [])"
  by (induction pods arbitrary: ctl d) (simp_all add: onInitialAddLive_Nil split: prod.splits)

lemma itemLoopLive_Nil:
  "itemLoopLive ctl [] items d = (fst (itemLoop ctl items d), snd (itemLoop ctl items d), [])"
  by (induction ctl items d rule: itemLoop.induct)
     (simp_all add: onInitialAddLive_Nil split: prod.splits)

lemma namespaceLoopLive_Nil:
  "namespaceLoopLive ctl [] nss d =
     (fst (namespaceLoop ctl nss d), snd (namespaceLoop ctl nss d), [])"
proof (induction nss arbitrary: ctl d)
  case Nil
  show ?case by simp
next
  case (Cons ns rest)
  show ?case
  proof (cases "client ctl (trace ctl) ns")
    case (Inl err)
    then show ?thesis by (simp add: Let_def)
  next
    case (Inr obj)
    show ?thesis
    proof (cases obj)
      case (PodList items)
      with Inr show ?thesis
        by (simp add: Let_def podListLoopLive_Nil Cons.IH split: prod.splits)
    next
      case (InternalList items)
      with Inr show ?thesis
        by (simp add: Let_def itemLoopLive_Nil Cons.IH split: prod.splits)
    next
      case OtherObject
      with Inr show ?thesis by (simp add: Let_def)
    qed
  qed
qed

lemma RunLive_Nil: "RunLive ctl [] = (fst (Run ctl), snd (Run ctl), [])"
  by (simp add: RunLive_def Run_def namespaceLoopLive_Nil split: prod.splits sum.splits)


lemma sessionEvent_handlerEvent: "list_all sessionEvent es \<Longrightarrow> list_all handlerEvent es"
  by (induction es rule: listedPods.induct) (simp_all add: sessionEvent_def)

lemma handlerEvents_listedPods: "list_all handlerEvent es \<Longrightarrow> listedPods es = []"
  by (induction es rule: listedPods.induct) simp_all

lemma handlerEvents_listedNamespaces: "list_all handlerEvent es \<Longrightarrow> listedNamespaces es = []"
  by (induction es rule: listedNamespaces.induct) simp_all

lemma handlerEvents_ND: "list_all handlerEvent es \<Longrightarrow> NothingDiscovered \<notin> set es"
  by (induction es) auto

lemma liveCall_events:
  "liveCall x \<Longrightarrow>
     \<exists>es. extends ctl (applyCall ctl x) es \<and> list_all handlerEvent es
          \<and> \<not> list_ex isInitialEnter es"
  by (cases x)
     (auto simp: addContainer_def deleteContainer_def Let_def extends_def
        split: prod.splits option.splits)

lemma liveCalls_events:
  "\<exists>es. extends ctl (applyCalls ctl (filter liveCall calls)) es \<and> list_all handlerEvent es
        \<and> \<not> list_ex isInitialEnter es"
proof (induction calls arbitrary: ctl)
  case Nil
  show ?case by (rule exI [of _ "[]"]) (simp add: extends_refl)
next
  case (Cons x calls)
  show ?case
  proof (cases "liveCall x")
    case False
    then show ?thesis using Cons.IH [of ctl] by simp
  next
    case True
    obtain es1 where 1: "extends ctl (applyCall ctl x) es1" "list_all handlerEvent es1"
      "\<not> list_ex isInitialEnter es1"
      using liveCall_events [OF True] by blast
    obtain es2 where 2:
      "extends (applyCall ctl x) (applyCalls (applyCall ctl x) (filter liveCall calls)) es2"
      "list_all handlerEvent es2" "\<not> list_ex isInitialEnter es2"
      using Cons.IH [of "applyCall ctl x"] by blast
    have "extends ctl (applyCalls ctl (filter liveCall (x # calls))) (es1 @ es2)"
      using extends_trans [OF 1(1) 2(1)] True by simp
    moreover have "list_all handlerEvent (es1 @ es2)" "\<not> list_ex isInitialEnter (es1 @ es2)"
      using 1 2 by simp_all
    ultimately show ?thesis by blast
  qed
qed

lemma beside_events:
  assumes "beside ctl sch = (ctl2, sch2)"
  shows "\<exists>es. extends ctl ctl2 es \<and> list_all handlerEvent es \<and> \<not> list_ex isInitialEnter es"
proof (cases sch)
  case Nil
  with assms have "ctl2 = ctl" by simp
  then show ?thesis using extends_refl [of ctl] by force
next
  case (Cons calls rest)
  show ?thesis
  proof (cases "list_ex isInformerRun (trace ctl)")
    case True
    with Cons assms have "ctl2 = applyCalls ctl (filter liveCall calls)" by simp
    then show ?thesis using liveCalls_events [of ctl calls] by simp
  next
    case False
    with Cons assms have "ctl2 = ctl" by simp
    then show ?thesis using extends_refl [of ctl] by force
  qed
qed

lemma initialAdd_events:
  "\<exists>es. extends ctl (addContainer ctl pod c True) es \<and> list_all handlerEvent es"
  using addContainer_extends [of ctl pod c True] sessionEvent_handlerEvent by blast

lemma initialAddLoopLive_post:
  "initialAddLoopLive ctl sch pod cs added = (added2, ctl2, sch2) \<Longrightarrow>
     added2 = (added \<or> list_ex (shouldIncludeContainer ctl pod) cs)
     \<and> (\<exists>es. extends ctl ctl2 es \<and> list_all handlerEvent es
              \<and> (list_ex isInitialEnter es \<longrightarrow> list_ex (shouldIncludeContainer ctl pod) cs))"
proof (induction cs arbitrary: ctl sch added)
  case Nil
  then show ?case using extends_refl [of ctl] by force
next
  case (Cons c cs)
  show ?case
  proof (cases "shouldIncludeContainer ctl pod c")
    case False
    then have "initialAddLoopLive ctl sch pod cs added = (added2, ctl2, sch2)"
      using Cons.prems by simp
    from Cons.IH [OF this] False show ?thesis by simp
  next
    case True
    obtain ctl3 sch3 where b: "beside ctl sch = (ctl3, sch3)"
      by (cases "beside ctl sch")
    let ?c4 = "addContainer ctl3 pod c True"
    have rest: "initialAddLoopLive ?c4 sch3 pod cs True = (added2, ctl2, sch2)"
      using Cons.prems True b by simp
    obtain es1 where 1: "extends ctl ctl3 es1" "list_all handlerEvent es1"
      using beside_events [OF b] by blast
    obtain es2 where 2: "extends ctl3 ?c4 es2" "list_all handlerEvent es2"
      using initialAdd_events by blast
    obtain es3 where 3: "extends ?c4 ctl2 es3" "list_all handlerEvent es3"
      using Cons.IH [OF rest] by blast
    have "extends ctl ctl2 (es1 @ es2 @ es3)"
      using extends_trans [OF 1(1) extends_trans [OF 2(1) 3(1)]] .
    moreover have "list_all handlerEvent (es1 @ es2 @ es3)"
      using 1 2 3 by simp
    moreover have "added2 = True"
      using Cons.IH [OF rest] by simp
    ultimately show ?thesis using True by auto
  qed
qed

lemma onInitialAddLive_post:
  assumes "onInitialAddLive ctl sch pod = (added, ctl2, sch2)"
  shows "added = (includedContainers ctl pod \<noteq> [])
     \<and> (\<exists>es. extends ctl ctl2 es \<and> list_all handlerEvent es
              \<and> (list_ex isInitialEnter es \<longrightarrow> added))"
proof -
  obtain a1 c1' s1 where first:
    "initialAddLoopLive ctl sch pod (InitContainers (Spec pod)) False = (a1, c1', s1)"
    by (cases "initialAddLoopLive ctl sch pod (InitContainers (Spec pod)) False")
  have second: "initialAddLoopLive c1' s1 pod (Containers (Spec pod)) a1 = (added, ctl2, sch2)"
    using assms first by (simp add: onInitialAddLive_def)
  note p1' = initialAddLoopLive_post [OF first]
  note p2' = initialAddLoopLive_post [OF second]
  obtain es1 where 1: "extends ctl c1' es1" "list_all handlerEvent es1"
    "list_ex isInitialEnter es1 \<longrightarrow> list_ex (shouldIncludeContainer ctl pod) (InitContainers (Spec pod))"
    using p1' by blast
  obtain es2 where 2: "extends c1' ctl2 es2" "list_all handlerEvent es2"
    "list_ex isInitialEnter es2 \<longrightarrow> list_ex (shouldIncludeContainer c1' pod) (Containers (Spec pod))"
    using p2' by blast
  have same: "shouldIncludeContainer c1' pod = shouldIncludeContainer ctl pod"
    by (rule shouldIncludeContainer_extends [OF 1(1)])
  have added: "added = (list_ex (shouldIncludeContainer ctl pod) (InitContainers (Spec pod))
                       \<or> list_ex (shouldIncludeContainer ctl pod) (Containers (Spec pod)))"
    using p1' p2' same by simp
  have inc: "(includedContainers ctl pod \<noteq> [])
               = (list_ex (shouldIncludeContainer ctl pod) (InitContainers (Spec pod))
                       \<or> list_ex (shouldIncludeContainer ctl pod) (Containers (Spec pod)))"
    by (auto simp: includedContainers_def podContainers_def filter_empty_conv list_ex_iff)
  have "extends ctl ctl2 (es1 @ es2)"
    using extends_trans [OF 1(1) 2(1)] .
  moreover have "list_all handlerEvent (es1 @ es2)"
    using 1 2 by simp
  moreover have "list_ex isInitialEnter (es1 @ es2) \<longrightarrow> added"
    using 1(3) 2(3) added same by auto
  ultimately show ?thesis using added inc by blast
qed

lemma podListLoopLive_post:
  "podListLoopLive ctl sch pods d = (d2, ctl2, sch2) \<Longrightarrow>
     d2 = (d \<or> discovered ctl pods)
     \<and> (\<exists>es. extends ctl ctl2 es \<and> list_all handlerEvent es
              \<and> (list_ex isInitialEnter es \<longrightarrow> discovered ctl pods))"
proof (induction pods arbitrary: ctl sch d)
  case Nil
  then show ?case using extends_refl [of ctl] by force
next
  case (Cons pod pods)
  obtain added ctl3 sch3 where step: "onInitialAddLive ctl sch pod = (added, ctl3, sch3)"
    by (cases "onInitialAddLive ctl sch pod")
  have rest: "podListLoopLive ctl3 sch3 pods (if added then True else d) = (d2, ctl2, sch2)"
    using Cons.prems step by simp
  note ih = Cons.IH [OF rest]
  note st = onInitialAddLive_post [OF step]
  obtain es1 where 1: "extends ctl ctl3 es1" "list_all handlerEvent es1"
    "list_ex isInitialEnter es1 \<longrightarrow> added"
    using st by blast
  obtain es2 where 2: "extends ctl3 ctl2 es2" "list_all handlerEvent es2"
    "list_ex isInitialEnter es2 \<longrightarrow> discovered ctl3 pods"
    using ih by blast
  have added: "added = (includedContainers ctl pod \<noteq> [])"
    using st by blast
  have disc: "discovered ctl3 pods = discovered ctl pods"
    by (rule discovered_extends [OF 1(1)])
  have a: "d2 = (d \<or> discovered ctl (pod # pods))"
    using ih added disc by (auto simp: discovered_Cons)
  have b: "extends ctl ctl2 (es1 @ es2) \<and> list_all handlerEvent (es1 @ es2)
           \<and> (list_ex isInitialEnter (es1 @ es2) \<longrightarrow> discovered ctl (pod # pods))"
    using extends_trans [OF 1(1) 2(1)] 1 2 added disc by (auto simp: discovered_Cons)
  show ?case using a b by blast
qed

lemma itemLoopLive_pods:
  "itemLoopLive ctl sch items d = podListLoopLive ctl sch (itemPods items) d"
  by (induction ctl sch items d rule: itemLoopLive.induct) (simp_all split: prod.splits)


lemma livePost_stop:
  assumes b: "beside ctl sch = (ctl0, sch0)" and empty: "podsOf listed = []"
  shows "\<exists>es. livePost ctl (ns # rest) d (Inl e)
                (ctl0\<lparr>trace := trace ctl0 @ [ListCall ns listed]\<rparr>) es"
proof -
  obtain esA where A: "extends ctl ctl0 esA" "list_all handlerEvent esA"
    "\<not> list_ex isInitialEnter esA"
    using beside_events [OF b] by blast
  have e: "extends ctl0 (ctl0\<lparr>trace := trace ctl0 @ [ListCall ns listed]\<rparr>) [ListCall ns listed]"
    by (simp add: extends_def)
  have "livePost ctl (ns # rest) d (Inl e) (ctl0\<lparr>trace := trace ctl0 @ [ListCall ns listed]\<rparr>)
          (esA @ [ListCall ns listed])"
    unfolding livePost_def
    using extends_trans [OF A(1) e] A(3) handlerEvents_ND [OF A(2)]
    by simp
  then show ?thesis by blast
qed

lemma livePost_round:
  assumes b0: "beside ctl sch = (ctl0, sch0)"
    and pl: "podListLoopLive (ctl0\<lparr>trace := trace ctl0 @ [ListCall ns listed]\<rparr>) sch0
               (podsOf listed) d = (d2, ctl2, sch2)"
    and b1: "beside ctl2 sch2 = (ctl3, sch3)"
    and post: "livePost (ctl3\<lparr>trace := trace ctl3 @ [InformerRun ns]\<rparr>) rest d2 r ctl4 es3"
  shows "\<exists>es. livePost ctl (ns # rest) d r ctl4 es"
proof -
  let ?c1 = "ctl0\<lparr>trace := trace ctl0 @ [ListCall ns listed]\<rparr>"
  let ?c3 = "ctl3\<lparr>trace := trace ctl3 @ [InformerRun ns]\<rparr>"
  obtain esA where A: "extends ctl ctl0 esA" "list_all handlerEvent esA"
    "\<not> list_ex isInitialEnter esA"
    using beside_events [OF b0] by blast
  note plp = podListLoopLive_post [OF pl]
  obtain es2 where 2: "extends ?c1 ctl2 es2" "list_all handlerEvent es2"
    "list_ex isInitialEnter es2 \<longrightarrow> discovered ?c1 (podsOf listed)"
    using plp by blast
  obtain esB where B: "extends ctl2 ctl3 esB" "list_all handlerEvent esB"
    "\<not> list_ex isInitialEnter esB"
    using beside_events [OF b1] by blast
  have e01: "extends ctl0 ?c1 [ListCall ns listed]"
    by (simp add: extends_def)
  have e33: "extends ctl3 ?c3 [InformerRun ns]"
    by (simp add: extends_def)
  have e3: "extends ?c3 ctl4 es3"
    using post by (simp add: livePost_def)
  define es where "es = esA @ [ListCall ns listed] @ es2 @ esB @ [InformerRun ns] @ es3"
  have to1: "extends ctl ?c1 (esA @ [ListCall ns listed])"
    using extends_trans [OF A(1) e01] .
  have to3: "extends ctl ?c3 (esA @ [ListCall ns listed] @ es2 @ esB @ [InformerRun ns])"
    using extends_trans [OF A(1) extends_trans [OF e01 extends_trans [OF 2(1)
      extends_trans [OF B(1) e33]]]] .
  have extd: "extends ctl ctl4 es"
    unfolding es_def
    using extends_trans [OF A(1) extends_trans [OF e01 extends_trans [OF 2(1)
      extends_trans [OF B(1) extends_trans [OF e33 e3]]]]] .
  have disc1: "discovered ?c1 = discovered ctl"
    by (rule ext) (rule discovered_extends [OF to1])
  have disc3: "discovered ?c3 = discovered ctl"
    by (rule ext) (rule discovered_extends [OF to3])
  have lp: "listedPods es = podsOf listed @ listedPods es3"
    by (simp add: es_def listedPods_append handlerEvents_listedPods [OF A(2)]
        handlerEvents_listedPods [OF 2(2)] handlerEvents_listedPods [OF B(2)])
  have ln: "listedNamespaces es = ns # listedNamespaces es3"
    by (simp add: es_def listedNamespaces_append handlerEvents_listedNamespaces [OF A(2)]
        handlerEvents_listedNamespaces [OF 2(2)] handlerEvents_listedNamespaces [OF B(2)])
  have nd: "NothingDiscovered \<notin> set es"
    using post handlerEvents_ND [OF A(2)] handlerEvents_ND [OF 2(2)] handlerEvents_ND [OF B(2)]
    by (simp add: livePost_def es_def)
  have initial: "list_ex isInitialEnter es \<longrightarrow> discovered ctl (listedPods es)"
  proof
    assume "list_ex isInitialEnter es"
    then consider "list_ex isInitialEnter es2" | "list_ex isInitialEnter es3"
      using A(3) B(3) by (auto simp: es_def)
    then show "discovered ctl (listedPods es)"
    proof cases
      case 1
      then show ?thesis using 2(3) by (simp add: lp disc1)
    next
      case 2
      then have "discovered ?c3 (listedPods es3)"
        using post by (simp add: livePost_def)
      then show ?thesis by (simp add: lp disc3)
    qed
  qed
  have result: "\<forall>d1. r = Inr d1 \<longrightarrow>
      d1 = (d \<or> discovered ctl (listedPods es)) \<and> listedNamespaces es = ns # rest"
    using post plp by (auto simp: livePost_def lp ln disc1 disc3)
  have "livePost ctl (ns # rest) d r ctl4 es"
    unfolding livePost_def using extd nd initial result by blast
  then show ?thesis by blast
qed

lemma namespaceLoopLive_post:
  "namespaceLoopLive ctl sch nss d = (r, ctl4, sch4) \<Longrightarrow> \<exists>es. livePost ctl nss d r ctl4 es"
proof (induction nss arbitrary: ctl sch d)
  case Nil
  then have "livePost ctl [] d r ctl4 []"
    by (auto simp: livePost_def extends_refl)
  then show ?case by blast
next
  case (Cons ns rest)
  obtain ctl0 sch0 where b0: "beside ctl sch = (ctl0, sch0)"
    by (cases "beside ctl sch")
  let ?listed = "client ctl0 (trace ctl0) ns"
  let ?c1 = "ctl0\<lparr>trace := trace ctl0 @ [ListCall ns ?listed]\<rparr>"
  show ?case
  proof (cases "(\<exists>items. ?listed = Inr (PodList items)) \<or> (\<exists>items. ?listed = Inr (InternalList items))")
    case False
    then obtain e where "r = Inl e" "ctl4 = ?c1" "podsOf ?listed = []"
      using Cons.prems b0 by (auto simp: Let_def split: sum.splits ListObject.splits)
    then show ?thesis using livePost_stop [OF b0, of ?listed ns rest d e] by blast
  next
    case True
    obtain d2 ctl2 sch2 where pl: "podListLoopLive ?c1 sch0 (podsOf ?listed) d = (d2, ctl2, sch2)"
      by (cases "podListLoopLive ?c1 sch0 (podsOf ?listed) d")
    obtain ctl3 sch3 where b1: "beside ctl2 sch2 = (ctl3, sch3)"
      by (cases "beside ctl2 sch2")
    have "namespaceLoopLive (ctl3\<lparr>trace := trace ctl3 @ [InformerRun ns]\<rparr>) sch3 rest d2
            = (r, ctl4, sch4)"
      using True Cons.prems b0 pl b1 by (auto simp: Let_def itemLoopLive_pods)
    from Cons.IH [OF this] obtain es3
      where "livePost (ctl3\<lparr>trace := trace ctl3 @ [InformerRun ns]\<rparr>) rest d2 r ctl4 es3"
      by blast
    from livePost_round [OF b0 pl b1 this] show ?thesis .
  qed
qed

lemma livePost_result:
  "livePost ctl nss d (Inr d1) ctl3 es \<Longrightarrow>
     d1 = (d \<or> discovered ctl (listedPods es)) \<and> listedNamespaces es = nss"
  by (simp add: livePost_def)

lemma livePost_quiet:
  "livePost ctl nss d r ctl3 es \<Longrightarrow>
     NothingDiscovered \<notin> set es
     \<and> (\<not> discovered ctl (listedPods es) \<longrightarrow> \<not> list_ex isInitialEnter es)"
  by (auto simp: livePost_def)

lemma startedInitially_isInitialEnter: "startedInitially es \<Longrightarrow> list_ex isInitialEnter es"
  by (induction es rule: startedInitially.induct) auto

text \<open>
  The property of \<^verbatim>\<open>OnNothingDiscovered\<close> holds of every run with live events beside
  it, whatever the schedule: the handlers of live events leave no listing, no
  \<^verbatim>\<open>OnNothingDiscovered\<close> and no record of \<^verbatim>\<open>OnEnter\<close> with the flag true, so they
  change neither the test of \<^verbatim>\<open>discoveredAny\<close> nor what the initial-add pass is seen to do.
\<close>

lemma nothingDiscovered_beside_live_events:
  "(fst (RunLive ctl sch) = Inr () \<longrightarrow>
      listedNamespaces (runLiveEvents ctl sch) = Namespaces (options ctl)
      \<and> count_list (runLiveEvents ctl sch) NothingDiscovered
          = (if discovered ctl (listedPods (runLiveEvents ctl sch)) then 0 else 1))
   \<and> (fst (RunLive ctl sch) \<noteq> Inr () \<longrightarrow> NothingDiscovered \<notin> set (runLiveEvents ctl sch))
   \<and> (startedInitially (runLiveEvents ctl sch) \<longrightarrow>
        NothingDiscovered \<notin> set (runLiveEvents ctl sch))
   \<and> (NothingDiscovered \<in> set (runLiveEvents ctl sch) \<longrightarrow>
        listedNamespaces (takeWhile (\<lambda>e. e \<noteq> NothingDiscovered) (runLiveEvents ctl sch))
          = Namespaces (options ctl)
        \<and> \<not> list_ex isInitialEnter (runLiveEvents ctl sch)
        \<and> \<not> startedInitially (runLiveEvents ctl sch))"
proof -
  obtain r ctl3 sch3
    where loop: "namespaceLoopLive ctl sch (Namespaces (options ctl)) False = (r, ctl3, sch3)"
    by (cases "namespaceLoopLive ctl sch (Namespaces (options ctl)) False")
  obtain es where post: "livePost ctl (Namespaces (options ctl)) False r ctl3 es"
    using namespaceLoopLive_post [OF loop] by blast
  have tr: "trace ctl3 = trace ctl @ es"
    using post by (simp add: livePost_def extends_def)
  have nd: "NothingDiscovered \<notin> set es"
    using livePost_quiet [OF post] by simp
  show ?thesis
  proof (cases r)
    case (Inl e)
    have "RunLive ctl sch = (Inl e, ctl3, sch3)"
      using loop Inl by (simp add: RunLive_def)
    then have "fst (RunLive ctl sch) = Inl e" "runLiveEvents ctl sch = es"
      by (simp_all add: runLiveEvents_def eventsSince_def tr)
    then show ?thesis using nd by simp
  next
    case (Inr d)
    have res: "d = discovered ctl (listedPods es)" "listedNamespaces es = Namespaces (options ctl)"
      using livePost_result [of ctl _ False d ctl3 es] post Inr by simp_all
    show ?thesis
    proof (cases d)
      case True
      have "RunLive ctl sch = (Inr (), ctl3, sch3)"
        using loop Inr True by (simp add: RunLive_def)
      then have "fst (RunLive ctl sch) = Inr ()" "runLiveEvents ctl sch = es"
        by (simp_all add: runLiveEvents_def eventsSince_def tr)
      then show ?thesis using nd res True by (simp add: count_list_absent)
    next
      case False
      obtain ctl4 sch4 where b: "beside ctl3 sch3 = (ctl4, sch4)"
        by (cases "beside ctl3 sch3")
      obtain fs where F: "extends ctl3 ctl4 fs" "list_all handlerEvent fs"
        "\<not> list_ex isInitialEnter fs"
        using beside_events [OF b] by blast
      have run: "RunLive ctl sch = (Inr (), ctl4\<lparr>trace := trace ctl4 @ [NothingDiscovered]\<rparr>, sch4)"
        using loop Inr False b by (simp add: RunLive_def)
      have tr4: "trace ctl4 = trace ctl @ es @ fs"
        using F(1) tr by (simp add: extends_def)
      have ev: "runLiveEvents ctl sch = (es @ fs) @ [NothingDiscovered]"
        by (simp add: runLiveEvents_def run eventsSince_def tr4)
      have nd2: "NothingDiscovered \<notin> set (es @ fs)"
        using nd handlerEvents_ND [OF F(2)] by simp
      have quiet: "\<not> list_ex isInitialEnter es"
        using livePost_quiet [OF post] res(1) False by simp
      have initial: "\<not> list_ex isInitialEnter ((es @ fs) @ [NothingDiscovered])"
        using quiet F(3) by simp
      then have started: "\<not> startedInitially ((es @ fs) @ [NothingDiscovered])"
        using startedInitially_isInitialEnter by blast
      have before: "takeWhile (\<lambda>e. e \<noteq> NothingDiscovered) ((es @ fs) @ [NothingDiscovered]) = es @ fs"
        by (rule takeWhile_before [OF nd2])
      have lp: "listedPods ((es @ fs) @ [NothingDiscovered]) = listedPods es"
        by (simp add: listedPods_append handlerEvents_listedPods [OF F(2)])
      have ln: "listedNamespaces (es @ fs) = Namespaces (options ctl)"
        "listedNamespaces ((es @ fs) @ [NothingDiscovered]) = Namespaces (options ctl)"
        by (simp_all add: listedNamespaces_append handlerEvents_listedNamespaces [OF F(2)] res(2))
      have counted: "count_list ((es @ fs) @ [NothingDiscovered]) NothingDiscovered = 1"
        using count_list_absent [OF nd2] by simp
      have nothing_found: "\<not> discovered ctl (listedPods ((es @ fs) @ [NothingDiscovered]))"
        using res(1) False by (simp only: lp) simp
      have completed: "fst (RunLive ctl sch) = Inr ()"
        by (simp add: run)
      show ?thesis
        unfolding ev before
        using completed ln counted nothing_found initial started by simp
    qed
  qed
qed

text \<open>
  The run of \<open>ctlInitOnly\<close> with the schedule \<open>lateAdd\<close>: a session is started by the
  handler of a live event before \<^verbatim>\<open>OnNothingDiscovered\<close> is invoked, and none by the
  initial-add pass.
\<close>

lemma RunLive_lateAdd:
  "RunLive ctlInitOnly lateAdd =
     (Inr (),
      ctlInitOnly\<lparr>tailers := [''ns1/p1/c1'' \<mapsto>
                      \<lparr>tailer_Pod = p1, tailer_Container = c1, FromTimestamp = Some 70\<rparr>],
            trace := [ListCall ''ns1'' (Inr (PodList [p1InitOnly])), InformerRun ''ns1'',
                      Enter p1 c1 False True,
                      TailerRun ''ns1/p1/c1''
                        \<lparr>tailer_Pod = p1, tailer_Container = c1, FromTimestamp = Some 70\<rparr>,
                      NothingDiscovered]\<rparr>,
      [])"
  by (simp add: RunLive_def onInitialAddLive_def ctlInitOnly_def lateAdd_def p1InitOnly_def
      eval_defs)

lemma lateAdd_not_initial:
  "list_ex isTailerRun (runLiveEvents ctlInitOnly lateAdd)
   \<and> NothingDiscovered \<in> set (runLiveEvents ctlInitOnly lateAdd)
   \<and> \<not> list_ex isInitialEnter (runLiveEvents ctlInitOnly lateAdd)
   \<and> \<not> startedInitially (runLiveEvents ctlInitOnly lateAdd)"
  by (simp add: runLiveEvents_def eventsSince_def RunLive_lateAdd)
     (simp add: ctlInitOnly_def ctlC1_def NewController_def)

end
